theory Spec2Isabelle
  imports Complex_Main
begin

section \<open>Data model of \<open>src/webapp/src/app/page.tsx\<close>\<close>

text \<open>
  A JavaScript number is modelled as the real it denotes.  The timeline of the
  preview and the drawing arithmetic are read as exact real arithmetic.  The two
  frame counts of \<open>synthesizeVideo\<close> are not: there the sum and the product are
  the IEEE-754 double operations of the code, rounded to nearest with ties to
  even, before \<open>Math.round\<close> is applied (see \<open>toDouble\<close> below).  Frame counters,
  which the code only ever produces as non-negative integers, are natural
  numbers.
\<close>

datatype SceneAnimation = Zoom | Slide | Drift

record Scene =
  scene_id :: string
  title :: string
  description :: string
  duration :: real
  gradientId :: string
  textColor :: string
  accent :: string
  animation :: SceneAnimation

text \<open>
  \<open>GradientSpec\<close> and the table \<open>GRADIENTS\<close> are imported from \<open>@/lib/palette\<close>,
  which is not among the sources; the fields are the ones \<open>page.tsx\<close> reads
  (\<open>id\<close>, \<open>label\<close>, \<open>angle\<close>, \<open>stops\<close> with \<open>at\<close> and \<open>color\<close>).  The table itself is a
  parameter of every function that consults it.
\<close>

record GradientSpec =
  gradient_id :: string
  label :: string
  angle :: real
  stops :: "(real \<times> string) list"

definition CANVAS_WIDTH :: real where "CANVAS_WIDTH = 1280"
definition CANVAS_HEIGHT :: real where "CANVAS_HEIGHT = 720"
definition FPS :: real where "FPS = 24"

definition MAX_SCENES :: nat where "MAX_SCENES = 6"
definition MIN_DURATION :: real where "MIN_DURATION = 2"
definition MAX_DURATION :: real where "MAX_DURATION = 8"

text \<open>\<open>nanoid()\<close> draws a random identifier; the three it returns are parameters.\<close>

definition buildInitialScenes :: "string \<Rightarrow> string \<Rightarrow> string \<Rightarrow> Scene list" where
  "buildInitialScenes i1 i2 i3 =
    [ \<lparr> scene_id = i1,
        title = ''Showcase your ideas in motion'',
        description = ''Craft cinematic storyboards that turn into silky, production-ready clips with zero hassle.'',
        duration = 4,
        gradientId = ''aurora'',
        textColor = ''#f8fafc'',
        accent = ''#facc15'',
        animation = Zoom \<rparr>,
      \<lparr> scene_id = i2,
        title = ''Scene-aware pacing'',
        description = ''Fine-tune every beat. Dial in timing, gradients, and motion for a smooth narrative arc.'',
        duration = 7 / 2,
        gradientId = ''midnight'',
        textColor = ''#e2e8f0'',
        accent = ''#38bdf8'',
        animation = Slide \<rparr>,
      \<lparr> scene_id = i3,
        title = ''Render to share in one click'',
        description = ''Generate studio-grade MP4s in-browser using a fast WASM encoder optimized for Vercel deploys.'',
        duration = 3,
        gradientId = ''sunset'',
        textColor = ''#fff7ed'',
        accent = ''#fb7185'',
        animation = Drift \<rparr> ]"

definition clamp :: "real \<Rightarrow> real \<Rightarrow> real \<Rightarrow> real" where
  "clamp v lo hi = min (max v lo) hi"

section \<open>Scene-list operations of the \<open>Home\<close> component\<close>

text \<open>The part of the component state the scene-list handlers read and write.\<close>

record Home =
  scenes :: "Scene list"
  selectedSceneId :: string

definition initialHome :: "string \<Rightarrow> string \<Rightarrow> string \<Rightarrow> Home" where
  "initialHome i1 i2 i3 =
    (let built = buildInitialScenes i1 i2 i3
     in \<lparr> scenes = built, selectedSceneId = scene_id (hd built) \<rparr>)"

definition updateScene :: "string \<Rightarrow> (Scene \<Rightarrow> Scene) \<Rightarrow> Scene list \<Rightarrow> Scene list" where
  "updateScene i updater current =
     map (\<lambda>scene. if scene_id scene = i then updater scene else scene) current"

text \<open>\<open>Array.prototype.findIndex\<close>: the first index satisfying the test, or \<open>-1\<close>.\<close>

fun findIndex :: "('a \<Rightarrow> bool) \<Rightarrow> 'a list \<Rightarrow> int" where
  "findIndex P [] = -1"
| "findIndex P (x # xs) =
     (if P x then 0 else (let r = findIndex P xs in if r < 0 then -1 else r + 1))"

text \<open>
  \<open>addScene\<close>.  The new identifier \<open>newId\<close> is what \<open>nanoid()\<close> returned.  With an empty
  gradient table the index expression is \<open>NaN\<close>, \<open>GRADIENTS[NaN]\<close> is \<open>undefined\<close> and
  reading \<open>gradient.id\<close> throws before any state is set: the state is unchanged.
\<close>

definition addScene :: "GradientSpec list \<Rightarrow> string \<Rightarrow> Home \<Rightarrow> Home" where
  "addScene GRADIENTS newId st =
    (if length (scenes st) \<ge> MAX_SCENES then st
     else
       let template = (if scenes st = [] then hd (buildInitialScenes [] [] [])
                       else last (scenes st))
       in if GRADIENTS = [] then st
          else
            let gradient = GRADIENTS !
                  nat ((findIndex (\<lambda>g. gradient_id g = gradientId template) GRADIENTS + 1)
                       mod int (length GRADIENTS));
                newScene = \<lparr> scene_id = newId,
                             title = ''New Narrative Moment'',
                             description = ''Swap in your copy and colors, then keep sculpting the flow.'',
                             duration = clamp (duration template) MIN_DURATION MAX_DURATION,
                             gradientId = gradient_id gradient,
                             textColor = textColor template,
                             accent = accent template,
                             animation = animation template \<rparr>
            in \<lparr> scenes = scenes st @ [newScene], selectedSceneId = scene_id newScene \<rparr>)"

definition removeScene :: "string \<Rightarrow> Home \<Rightarrow> Home" where
  "removeScene i st =
    (if length (scenes st) = 1 then st
     else
       \<lparr> scenes = filter (\<lambda>scene. scene_id scene \<noteq> i) (scenes st),
         selectedSceneId =
           (if selectedSceneId st = i
            then (case find (\<lambda>scene. scene_id scene \<noteq> i) (scenes st) of
                    Some nextScene \<Rightarrow> scene_id nextScene
                  | None \<Rightarrow> selectedSceneId st)
            else selectedSceneId st) \<rparr>)"

text \<open>
  The \<open>onChange\<close> handlers of \<open>SceneEditor\<close>.  \<open>EditDuration v\<close> carries
  \<open>Number(event.target.value)\<close>; the gradient and animation buttons pass the identifier
  of the entry clicked.
\<close>

datatype SceneEdit =
    EditTitle string
  | EditDescription string
  | EditDuration real
  | EditTextColor string
  | EditAccent string
  | EditGradient string
  | EditAnimation SceneAnimation

fun sceneEditorChange :: "Scene \<Rightarrow> SceneEdit \<Rightarrow> Scene" where
  "sceneEditorChange scene (EditTitle v) = scene\<lparr>title := v\<rparr>"
| "sceneEditorChange scene (EditDescription v) = scene\<lparr>description := v\<rparr>"
| "sceneEditorChange scene (EditDuration v) =
     scene\<lparr>duration := clamp v MIN_DURATION MAX_DURATION\<rparr>"
| "sceneEditorChange scene (EditTextColor v) = scene\<lparr>textColor := v\<rparr>"
| "sceneEditorChange scene (EditAccent v) = scene\<lparr>accent := v\<rparr>"
| "sceneEditorChange scene (EditGradient g) = scene\<lparr>gradientId := g\<rparr>"
| "sceneEditorChange scene (EditAnimation a) = scene\<lparr>animation := a\<rparr>"

text \<open>
  \<open>activeScene\<close> is the selected scene, or the first one; the editor is mounted only
  when there is one, and its change replaces the scenes carrying that identifier.
\<close>

definition activeScene :: "Home \<Rightarrow> Scene option" where
  "activeScene st =
    (case find (\<lambda>scene. scene_id scene = selectedSceneId st) (scenes st) of
       Some scene \<Rightarrow> Some scene
     | None \<Rightarrow> (case scenes st of [] \<Rightarrow> None | scene # _ \<Rightarrow> Some scene))"

definition editScene :: "SceneEdit \<Rightarrow> Home \<Rightarrow> Home" where
  "editScene ev st =
    (case activeScene st of
       None \<Rightarrow> st
     | Some active \<Rightarrow>
         st\<lparr>scenes := updateScene (scene_id active)
                         (\<lambda>_. sceneEditorChange active ev) (scenes st)\<rparr>)"

text \<open>Every handler that touches the scene list or the selection.\<close>

datatype HomeEvent =
    AddScene string
  | RemoveScene string
  | SelectScene string
  | EditScene SceneEdit

fun handle :: "GradientSpec list \<Rightarrow> Home \<Rightarrow> HomeEvent \<Rightarrow> Home" where
  "handle GRADIENTS st (AddScene newId) = addScene GRADIENTS newId st"
| "handle GRADIENTS st (RemoveScene i) = removeScene i st"
| "handle GRADIENTS st (SelectScene i) = st\<lparr>selectedSceneId := i\<rparr>"
| "handle GRADIENTS st (EditScene ev) = editScene ev st"

definition run :: "GradientSpec list \<Rightarrow> Home \<Rightarrow> HomeEvent list \<Rightarrow> Home" where
  "run GRADIENTS st evs = foldl (handle GRADIENTS) st evs"

section \<open>Timeline and frame counts\<close>

text \<open>\<open>Math.round\<close>: the nearest integer, ties towards \<open>+\<infinity>\<close>.\<close>

definition Math_round :: "real \<Rightarrow> int" where
  "Math_round x = \<lfloor>x + 1 / 2\<rfloor>"

definition totalDurationForScenes :: "Scene list \<Rightarrow> real" where
  "totalDurationForScenes ss = foldl (\<lambda>total scene. total + duration scene) 0 ss"

text \<open>
  The frame counts are where one unit in the last place of a product changes the
  result by a whole frame, so there the arithmetic of the code is followed to the
  bit: every \<open>+\<close> and \<open>*\<close> on numbers returns the double nearest to the exact result,
  a tie going to the double whose significand is even.  \<open>binade x\<close> is the exponent
  \<open>e\<close> with \<open>2^e \<le> x < 2^(e+1)\<close> of a positive \<open>x\<close>; a double has 53 significant bits,
  so the doubles of that binade are the multiples of \<open>2^(e-52)\<close>.  The exponent is not
  bounded here: overflow to \<open>Infinity\<close> and subnormal numbers are out of reach of
  sums and products of durations.
\<close>

function binadeNat :: "nat \<Rightarrow> nat" where
  "binadeNat n = (if n < 2 then 0 else Suc (binadeNat (n div 2)))"
  by pat_completeness auto
termination
  by (relation "measure (\<lambda>n. n)") auto

definition binade :: "real \<Rightarrow> int" where
  "binade x =
     (if 1 \<le> x then int (binadeNat (nat \<lfloor>x\<rfloor>))
      else - int (Suc (binadeNat (nat (\<lceil>1 / x\<rceil> - 1)))))"

definition pow2 :: "int \<Rightarrow> real" where
  "pow2 e = (if 0 \<le> e then 2 ^ nat e else 1 / 2 ^ nat (- e))"

definition roundTiesToEven :: "real \<Rightarrow> int" where
  "roundTiesToEven x =
     (let n = \<lfloor>x\<rfloor>
      in if x - of_int n < 1 / 2 then n
         else if 1 / 2 < x - of_int n then n + 1
         else if even n then n else n + 1)"

definition toDouble :: "real \<Rightarrow> real" where
  "toDouble x =
     (let ulp = pow2 (binade \<bar>x\<bar> - 52)
      in sgn x * (of_int (roundTiesToEven (\<bar>x\<bar> / ulp)) * ulp))"

definition double_plus :: "real \<Rightarrow> real \<Rightarrow> real" where
  "double_plus a b = toDouble (a + b)"

definition double_times :: "real \<Rightarrow> real \<Rightarrow> real" where
  "double_times a b = toDouble (a * b)"

text \<open>
  The sum \<open>totalDurationForScenes\<close> returns to \<open>synthesizeVideo\<close>, with the rounding of
  each addition of the \<open>reduce\<close> written out.
\<close>

definition totalDurationDouble :: "Scene list \<Rightarrow> real" where
  "totalDurationDouble ss = foldl (\<lambda>total scene. double_plus total (duration scene)) 0 ss"

text \<open>The two frame counts of \<open>synthesizeVideo\<close>; both are at least one.\<close>

definition totalFrames :: "Scene list \<Rightarrow> nat" where
  "totalFrames ss = nat (max 1 (Math_round (double_times (totalDurationDouble ss) FPS)))"

definition framesForScene :: "Scene \<Rightarrow> nat" where
  "framesForScene scene = nat (max 1 (Math_round (double_times (duration scene) FPS)))"


section \<open>The drawing surface\<close>

text \<open>
  The 2D context is an external capability.  It is modelled by the drawing state the
  calls of \<open>page.tsx\<close> read or write, the stack of \<open>save()\<close>, and the sequence of calls
  issued so far, which is what the surface shows.
\<close>

datatype Paint =
    Color string
  | LinearGradient real real real real "(real \<times> string) list"
  | RadialGradient real real real real real real "(real \<times> string) list"
  | PaletteGradient real real GradientSpec

datatype CanvasCall =
    Save
  | Restore
  | Translate real real
  | Scale real real
  | Rotate real
  | SetFillStyle Paint
  | SetGlobalAlpha real
  | SetFont string
  | SetTextBaseline string
  | FillRect real real real real
  | FillText string real real
  | BeginPath
  | MoveTo real real
  | LineTo real real
  | QuadraticCurveTo real real real real
  | ClosePath
  | Fill

record DrawState =
  fillStyle :: Paint
  globalAlpha :: real
  font :: string
  textBaseline :: string
  transform :: "CanvasCall list"

record Context =
  drawState :: DrawState
  saved :: "DrawState list"
  issued :: "CanvasCall list"

text \<open>The state of a context just obtained from a new canvas element.\<close>

definition freshContext :: Context where
  "freshContext =
    \<lparr> drawState = \<lparr> fillStyle = Color ''#000000'', globalAlpha = 1,
                      font = ''10px sans-serif'', textBaseline = ''alphabetic'',
                      transform = [] \<rparr>,
      saved = [],
      issued = [] \<rparr>"

definition emit :: "CanvasCall \<Rightarrow> Context \<Rightarrow> Context" where
  "emit c ctx = ctx\<lparr>issued := issued ctx @ [c]\<rparr>"

definition save :: "Context \<Rightarrow> Context" where
  "save ctx = emit Save (ctx\<lparr>saved := drawState ctx # saved ctx\<rparr>)"

text \<open>\<open>restore()\<close> with nothing saved does nothing to the state.\<close>

definition restore :: "Context \<Rightarrow> Context" where
  "restore ctx =
     emit Restore (case saved ctx of [] \<Rightarrow> ctx
                   | s # rest \<Rightarrow> ctx\<lparr>drawState := s, saved := rest\<rparr>)"

definition applyTransform :: "CanvasCall \<Rightarrow> Context \<Rightarrow> Context" where
  "applyTransform c ctx =
     emit c (ctx\<lparr>drawState := (drawState ctx)\<lparr>transform := c # transform (drawState ctx)\<rparr>\<rparr>)"

definition translate :: "real \<Rightarrow> real \<Rightarrow> Context \<Rightarrow> Context" where
  "translate x y = applyTransform (Translate x y)"

definition scale :: "real \<Rightarrow> real \<Rightarrow> Context \<Rightarrow> Context" where
  "scale x y = applyTransform (Scale x y)"

definition rotate_ctx :: "real \<Rightarrow> Context \<Rightarrow> Context" where
  "rotate_ctx a = applyTransform (Rotate a)"

definition set_fillStyle :: "Paint \<Rightarrow> Context \<Rightarrow> Context" where
  "set_fillStyle p ctx =
     emit (SetFillStyle p) (ctx\<lparr>drawState := (drawState ctx)\<lparr>fillStyle := p\<rparr>\<rparr>)"

definition set_globalAlpha :: "real \<Rightarrow> Context \<Rightarrow> Context" where
  "set_globalAlpha a ctx =
     emit (SetGlobalAlpha a) (ctx\<lparr>drawState := (drawState ctx)\<lparr>globalAlpha := a\<rparr>\<rparr>)"

definition set_font :: "string \<Rightarrow> Context \<Rightarrow> Context" where
  "set_font f ctx =
     emit (SetFont f) (ctx\<lparr>drawState := (drawState ctx)\<lparr>font := f\<rparr>\<rparr>)"

definition set_textBaseline :: "string \<Rightarrow> Context \<Rightarrow> Context" where
  "set_textBaseline b ctx =
     emit (SetTextBaseline b) (ctx\<lparr>drawState := (drawState ctx)\<lparr>textBaseline := b\<rparr>\<rparr>)"

definition fillRect :: "real \<Rightarrow> real \<Rightarrow> real \<Rightarrow> real \<Rightarrow> Context \<Rightarrow> Context" where
  "fillRect x y w h = emit (FillRect x y w h)"

definition fillText :: "string \<Rightarrow> real \<Rightarrow> real \<Rightarrow> Context \<Rightarrow> Context" where
  "fillText t x y = emit (FillText t x y)"

section \<open>Easing curves\<close>

definition easeInOut :: "real \<Rightarrow> real" where
  "easeInOut v = (if v < 1 / 2 then 4 * v * v * v else 1 - (- 2 * v + 2) ^ 3 / 2)"

definition easeOut :: "real \<Rightarrow> real" where
  "easeOut v = 1 - (1 - v) ^ 3"

definition easeIn :: "real \<Rightarrow> real" where
  "easeIn v = v * v"

section \<open>The frame renderer\<close>

definition fontStyles_title :: string where
  "fontStyles_title =
     ''700 64px '' @ [CHR 0x27] @ ''Sora'' @ [CHR 0x27] @ '', '' @ [CHR 0x27] @ ''Inter''
       @ [CHR 0x27] @ '', sans-serif''"

definition fontStyles_description :: string where
  "fontStyles_description =
     ''400 30px '' @ [CHR 0x27] @ ''Inter'' @ [CHR 0x27] @ '', system-ui, sans-serif''"

text \<open>
  Modelled from the spec: \<open>drawGradient\<close> of \<open>@/lib/palette\<close> is not among the sources.
  The spec says of this step only "Paint the full-frame gradient per its angle and
  stops": the model installs the gradient as fill style and fills the frame.
\<close>

definition drawGradient :: "real \<Rightarrow> real \<Rightarrow> GradientSpec \<Rightarrow> Context \<Rightarrow> Context" where
  "drawGradient w h gradient ctx =
     fillRect 0 0 w h (set_fillStyle (PaletteGradient w h gradient) ctx)"

definition drawMist :: "Context \<Rightarrow> Context" where
  "drawMist ctx =
    (let gradient = RadialGradient
           (CANVAS_WIDTH * (3 / 10)) (CANVAS_HEIGHT * (2 / 10)) 0
           (CANVAS_WIDTH * (4 / 10)) (CANVAS_HEIGHT * (3 / 10)) (CANVAS_WIDTH * (8 / 10))
           [(0, ''rgba(255,255,255,0.18)''), (1, ''rgba(255,255,255,0)'')]
     in fillRect 0 0 CANVAS_WIDTH CANVAS_HEIGHT (set_fillStyle gradient ctx))"

definition roundedRect ::
  "real \<Rightarrow> real \<Rightarrow> real \<Rightarrow> real \<Rightarrow> real \<Rightarrow> Context \<Rightarrow> Context" where
  "roundedRect x y width height radius ctx =
    (let c1 = emit BeginPath ctx;
         c2 = emit (MoveTo (x + radius) y) c1;
         c3 = emit (LineTo (x + width - radius) y) c2;
         c4 = emit (QuadraticCurveTo (x + width) y (x + width) (y + radius)) c3;
         c5 = emit (LineTo (x + width) (y + height - radius)) c4;
         c6 = emit (QuadraticCurveTo (x + width) (y + height) (x + width - radius) (y + height)) c5;
         c7 = emit (LineTo (x + radius) (y + height)) c6;
         c8 = emit (QuadraticCurveTo x (y + height) x (y + height - radius)) c7;
         c9 = emit (LineTo x (y + radius)) c8;
         c10 = emit (QuadraticCurveTo x y (x + radius) y) c9
     in emit ClosePath c10)"

definition drawAccent :: "string \<Rightarrow> real \<Rightarrow> SceneAnimation \<Rightarrow> Context \<Rightarrow> Context" where
  "drawAccent acc progress anim ctx =
    (let eased = easeInOut progress;
         baseOpacity = 35 / 100 + (15 / 100) * sin (progress * pi);
         c1 = save ctx;
         c2 = translate (CANVAS_WIDTH / 2) (CANVAS_HEIGHT / 2) c1;
         scl = (if anim = Zoom then 1 + eased * (8 / 100)
                else if anim = Slide then 105 / 100 + sin (progress * pi) * (5 / 100)
                else 1 + cos (progress * pi * 2) * (4 / 100));
         c3 = scale scl scl c2;
         rotation = (if anim = Slide then (easeOut progress - 1 / 2) * (4 / 10)
                     else if anim = Drift then sin (progress * pi * 2) * (2 / 10)
                     else easeInOut progress * (15 / 100));
         c4 = rotate_ctx rotation c3;
         rectWidth = CANVAS_WIDTH * (65 / 100);
         rectHeight = CANVAS_HEIGHT * (65 / 100);
         gradient = LinearGradient (- rectWidth / 2) (- rectHeight / 2)
                      (rectWidth / 2) (rectHeight / 2)
                      [(0, acc @ ''30''), (1, acc @ ''00'')];
         c5 = set_fillStyle gradient c4;
         c6 = set_globalAlpha baseOpacity c5;
         c7 = roundedRect (- rectWidth / 2) (- rectHeight / 2) rectWidth rectHeight 48 c6;
         c8 = emit Fill c7
     in restore c8)"

text \<open>\<open>text.split(" ")\<close>: the pieces between single spaces; never an empty array.\<close>

fun split_space :: "string \<Rightarrow> string list" where
  "split_space [] = [[]]"
| "split_space (c # cs) =
     (if c = CHR '' '' then [] # split_space cs
      else (case split_space cs of
              [] \<Rightarrow> [[c]]
            | w # ws \<Rightarrow> (c # w) # ws))"

text \<open>
  One turn of the loop of \<open>wrapText\<close> over the words, on the pair
  \<open>(lines, currentLine)\<close>; the loop has no early exit, so it is a left fold.
  \<open>measureText fnt t\<close> is the width \<open>measureText(t)\<close> reports while the font is \<open>fnt\<close>.
\<close>

definition wrapWord ::
  "(string \<Rightarrow> string \<Rightarrow> real) \<Rightarrow> string \<Rightarrow> real \<Rightarrow> string list \<times> string \<Rightarrow> string
     \<Rightarrow> string list \<times> string" where
  "wrapWord measureText fnt maxWidth acc word =
    (case acc of
       (lines, currentLine) \<Rightarrow>
         (let testLine = (if currentLine \<noteq> [] then currentLine @ '' '' @ word else word)
          in if measureText fnt testLine > maxWidth \<and> currentLine \<noteq> []
             then (lines @ [currentLine], word)
             else (lines, testLine)))"

definition wrapText ::
  "(string \<Rightarrow> string \<Rightarrow> real) \<Rightarrow> Context \<Rightarrow> string \<Rightarrow> real \<Rightarrow> string list" where
  "wrapText measureText ctx txt maxWidth =
    (case foldl (wrapWord measureText (font (drawState ctx)) maxWidth) ([], [])
            (split_space txt) of
       (lines, currentLine) \<Rightarrow>
         if currentLine \<noteq> [] then lines @ [currentLine] else lines)"

text \<open>The two \<open>forEach\<close> loops of \<open>drawTextBlock\<close>, on the pair \<open>(context, currentY)\<close>.\<close>

fun fillLines :: "string list \<Rightarrow> real \<Rightarrow> Context \<times> real \<Rightarrow> Context \<times> real" where
  "fillLines [] step (ctx, currentY) = (ctx, currentY)"
| "fillLines (line # rest) step (ctx, currentY) =
     fillLines rest step (fillText line 0 currentY ctx, currentY + step)"

definition drawTextBlock ::
  "(string \<Rightarrow> string \<Rightarrow> real) \<Rightarrow> Scene \<Rightarrow> real \<Rightarrow> Context \<Rightarrow> Context" where
  "drawTextBlock measureText scene progress ctx =
    (let padding = 120;
         textWidth = CANVAS_WIDTH - padding * 2;
         c1 = save ctx;
         c2 = translate padding padding c1;
         offset = (if animation scene = Slide then (1 - easeOut progress) * 80
                   else if animation scene = Drift then sin (progress * pi * 2) * 20
                   else (1 - easeOut progress) * 40);
         c3 = translate 0 offset c2;
         c4 = set_globalAlpha (easeIn progress) c3;
         c5 = set_fillStyle (Color (textColor scene)) c4;
         c6 = set_font fontStyles_title c5;
         c7 = set_textBaseline ''top'' c6;
         titleLines = wrapText measureText c7 (title scene) textWidth;
         (c8, y1) = fillLines titleLines 70 (c7, 0);
         c9 = set_globalAlpha (easeIn progress * (9 / 10)) c8;
         c10 = set_font fontStyles_description c9;
         bodyLines = wrapText measureText c10 (description scene) textWidth;
         y2 = y1 + 20;
         (c11, y3) = fillLines bodyLines 44 (c10, y2)
     in restore c11)"

text \<open>
  Thrown errors are values.  \<open>Error m\<close> is \<open>new Error(m)\<close> thrown by \<open>page.tsx\<close>;
  \<open>Rejected m\<close> is a rejection coming out of the encoder capability.
\<close>

datatype error = Error string | Rejected string

definition missingGradient :: "string \<Rightarrow> error" where
  "missingGradient g = Error (''Missing gradient '' @ [CHR 0x22] @ g @ [CHR 0x22] @ ''.'')"

text \<open>
  \<open>renderSceneFrame\<close> returns what it threw, if anything, and the context as the
  call left it.
\<close>

definition renderSceneFrame ::
  "GradientSpec list \<Rightarrow> (string \<Rightarrow> string \<Rightarrow> real) \<Rightarrow> Scene \<Rightarrow> real \<Rightarrow> Context
     \<Rightarrow> error option \<times> Context" where
  "renderSceneFrame GRADIENTS measureText scene progress ctx =
    (case find (\<lambda>entry. gradient_id entry = gradientId scene) GRADIENTS of
       None \<Rightarrow> (Some (missingGradient (gradientId scene)), ctx)
     | Some gradient \<Rightarrow>
         (let c1 = save ctx;
              c2 = drawGradient CANVAS_WIDTH CANVAS_HEIGHT gradient c1;
              c3 = drawMist c2;
              c4 = drawAccent (accent scene) progress (animation scene) c3;
              c5 = drawTextBlock measureText scene progress c4
          in (None, restore c5)))"



section \<open>The encoder capability and one export attempt\<close>

text \<open>
  \<open>String(n)\<close> for a non-negative integer is its decimal numeral;
  \<open>padStart(len, c)\<close> pads on the left up to \<open>len\<close> characters.
\<close>

definition digitChar :: "nat \<Rightarrow> char" where
  "digitChar d = ''0123456789'' ! d"

function String_nat :: "nat \<Rightarrow> string" where
  "String_nat n =
     (if n < 10 then [digitChar n] else String_nat (n div 10) @ [digitChar (n mod 10)])"
  by pat_completeness auto
termination
  by (relation "measure (\<lambda>n. n)") auto

definition padStart :: "string \<Rightarrow> nat \<Rightarrow> char \<Rightarrow> string" where
  "padStart s len c = replicate (len - length s) c @ s"

definition frameFilename :: "nat \<Rightarrow> string" where
  "frameFilename frameIndex = ''frame_'' @ padStart (String_nat frameIndex) 5 CHR ''0'' @ ''.png''"

datatype Stage = Loading | Frames | Muxing

text \<open>What \<open>readFile\<close> may hand back: bytes, or text.\<close>

datatype FileData = Uint8Array "nat list" | Text string

text \<open>
  How \<open>exec\<close> ends: it resolves, having stored the given output, or it rejects,
  possibly leaving a partial output behind.
\<close>

datatype ExecOutcome = ExecResolves FileData | ExecRejects "FileData option"

text \<open>
  The behaviour of the collaborators during one attempt, none of which is
  implemented in \<open>page.tsx\<close>: the gradient table, text measurement, whether
  \<open>getFFmpeg()\<close> resolves, whether a 2D context and \<open>window.atob\<close> exist, the PNG bytes
  of a surface, and which encoder calls are rejected.
\<close>

record Env =
  registry :: "GradientSpec list"
  textMeasure :: "string \<Rightarrow> string \<Rightarrow> real"
  getFFmpeg_ok :: bool
  getContext_ok :: bool
  atob_ok :: bool
  toPng :: "Context \<Rightarrow> nat list"
  writeFile_ok :: "string \<Rightarrow> bool"
  exec_outcome :: "(string \<rightharpoonup> FileData) \<Rightarrow> ExecOutcome"
  readFile_ok :: "string \<Rightarrow> bool"
  deleteFile_ok :: "string \<Rightarrow> bool"

text \<open>
  The state of one attempt: the encoder's working storage, the names passed to
  \<open>writeFile\<close> and to \<open>deleteFile\<close> and the \<open>onStage\<close> reports so far (each in call
  order), and the locals of \<open>synthesizeVideo\<close> that its loops update.
\<close>

record Attempt =
  storage :: "string \<rightharpoonup> FileData"
  writeCalls :: "string list"
  deleteCalls :: "string list"
  stageLog :: "(Stage \<times> real) list"
  encoderLoaded :: bool
  canvasContext :: Context
  writtenFiles :: "string list"
  frameIndex :: nat

definition startAttempt :: "(string \<rightharpoonup> FileData) \<Rightarrow> Attempt" where
  "startAttempt files =
    \<lparr> storage = files, writeCalls = [], deleteCalls = [], stageLog = [], encoderLoaded = False,
      canvasContext = freshContext, writtenFiles = [], frameIndex = 0 \<rparr>"

definition onStage :: "Stage \<Rightarrow> real \<Rightarrow> Attempt \<Rightarrow> Attempt" where
  "onStage stage progress st = st\<lparr>stageLog := stageLog st @ [(stage, progress)]\<rparr>"

definition writeFile :: "Env \<Rightarrow> string \<Rightarrow> nat list \<Rightarrow> Attempt \<Rightarrow> error option \<times> Attempt" where
  "writeFile env name bytes st =
    (let st1 = st\<lparr>writeCalls := writeCalls st @ [name]\<rparr>
     in if writeFile_ok env name
        then (None, st1\<lparr>storage := (storage st)(name \<mapsto> Uint8Array bytes)\<rparr>)
        else (Some (Rejected ''writeFile''), st1))"

definition exec :: "Env \<Rightarrow> Attempt \<Rightarrow> error option \<times> Attempt" where
  "exec env st =
    (case exec_outcome env (storage st) of
       ExecResolves out \<Rightarrow> (None, st\<lparr>storage := (storage st)(''output.mp4'' \<mapsto> out)\<rparr>)
     | ExecRejects None \<Rightarrow> (Some (Rejected ''exec''), st)
     | ExecRejects (Some partial) \<Rightarrow>
         (Some (Rejected ''exec''), st\<lparr>storage := (storage st)(''output.mp4'' \<mapsto> partial)\<rparr>))"

definition readFile :: "Env \<Rightarrow> string \<Rightarrow> Attempt \<Rightarrow> error + FileData" where
  "readFile env name st =
    (if readFile_ok env name
     then (case storage st name of
             Some d \<Rightarrow> Inr d
           | None \<Rightarrow> Inl (Rejected ''readFile''))
     else Inl (Rejected ''readFile''))"

text \<open>\<open>deleteFile\<close> rejects when the encoder refuses or the name is not stored.\<close>

definition deleteFile :: "Env \<Rightarrow> string \<Rightarrow> Attempt \<Rightarrow> error option \<times> Attempt" where
  "deleteFile env name st =
    (let st1 = st\<lparr>deleteCalls := deleteCalls st @ [name]\<rparr>
     in if deleteFile_ok env name \<and> storage st name \<noteq> None
        then (None, st1\<lparr>storage := (storage st)(name := None)\<rparr>)
        else (Some (Rejected ''deleteFile''), st1))"

text \<open>\<open>cleanupFfmpeg\<close>: each \<open>deleteFile\<close> sits in its own \<open>try\<close> with an empty \<open>catch\<close>.\<close>

function cleanupFiles :: "Env \<Rightarrow> string list \<Rightarrow> Attempt \<Rightarrow> Attempt" where
  "cleanupFiles env [] st = st"
| "cleanupFiles env (file # files) st =
     (case deleteFile env file st of
        (Some e, st1) \<Rightarrow> cleanupFiles env files st1
      | (None, st1) \<Rightarrow> cleanupFiles env files st1)"
  by pat_completeness auto
termination
  by (relation "measure (\<lambda>(env, files, st). length files)") auto

definition cleanupFfmpeg :: "Env \<Rightarrow> string list \<Rightarrow> Attempt \<Rightarrow> Attempt" where
  "cleanupFfmpeg env files st =
    (let st1 = cleanupFiles env files st
     in case deleteFile env ''output.mp4'' st1 of
          (Some e, st2) \<Rightarrow> st2
        | (None, st2) \<Rightarrow> st2)"

definition loadEncoder :: "Env \<Rightarrow> Attempt \<Rightarrow> error option \<times> Attempt" where
  "loadEncoder env st =
    (let st1 = onStage Loading (1 / 10) st
     in if getFFmpeg_ok env
        then (None, onStage Loading 1 (st1\<lparr>encoderLoaded := True\<rparr>))
        else (Some (Rejected ''getFFmpeg''), st1))"

definition canvasToUint8 :: "Env \<Rightarrow> Context \<Rightarrow> error + nat list" where
  "canvasToUint8 env ctx =
    (if \<not> atob_ok env
     then Inl (Error ''Base64 decoding is not available in this environment.'')
     else Inr (toPng env ctx))"

text \<open>The body of the inner \<open>for\<close> loop of \<open>synthesizeVideo\<close>, for one frame.\<close>

definition frameBody ::
  "Env \<Rightarrow> nat \<Rightarrow> Scene \<Rightarrow> nat \<Rightarrow> nat \<Rightarrow> Attempt \<Rightarrow> error option \<times> Attempt" where
  "frameBody env frameTotal scene n frame st =
    (let progress = (if n \<le> 1 then 1 else real frame / real (n - 1))
     in case renderSceneFrame (registry env) (textMeasure env) scene progress (canvasContext st) of
          (Some e, c) \<Rightarrow> (Some e, st\<lparr>canvasContext := c\<rparr>)
        | (None, c) \<Rightarrow>
            (let st1 = st\<lparr>canvasContext := c\<rparr>;
                 filename = frameFilename (frameIndex st1)
             in case canvasToUint8 env c of
                  Inl e \<Rightarrow> (Some e, st1)
                | Inr pixels \<Rightarrow>
                    (case writeFile env filename pixels st1 of
                       (Some e, st2) \<Rightarrow> (Some e, st2)
                     | (None, st2) \<Rightarrow>
                         (let st3 = st2\<lparr>writtenFiles := writtenFiles st2 @ [filename]\<rparr>;
                              st4 = st3\<lparr>frameIndex := frameIndex st3 + 1\<rparr>
                          in (None, onStage Frames (real (frameIndex st4) / real frameTotal) st4)))))"

function frameLoop ::
  "Env \<Rightarrow> nat \<Rightarrow> Scene \<Rightarrow> nat \<Rightarrow> nat \<Rightarrow> Attempt \<Rightarrow> error option \<times> Attempt" where
  "frameLoop env frameTotal scene n frame st =
    (if frame < n
     then (case frameBody env frameTotal scene n frame st of
             (Some e, st1) \<Rightarrow> (Some e, st1)
           | (None, st1) \<Rightarrow> frameLoop env frameTotal scene n (frame + 1) st1)
     else (None, st))"
  by pat_completeness auto
termination
  by (relation "measure (\<lambda>(env, frameTotal, scene, n, frame, st). n - frame)") auto

text \<open>The outer \<open>for (const scene of scenes)\<close> loop.\<close>

function sceneLoop :: "Env \<Rightarrow> nat \<Rightarrow> Scene list \<Rightarrow> Attempt \<Rightarrow> error option \<times> Attempt" where
  "sceneLoop env frameTotal [] st = (None, st)"
| "sceneLoop env frameTotal (scene # rest) st =
     (case frameLoop env frameTotal scene (framesForScene scene) 0 st of
        (Some e, st1) \<Rightarrow> (Some e, st1)
      | (None, st1) \<Rightarrow> sceneLoop env frameTotal rest st1)"
  by pat_completeness auto
termination
  by (relation "measure (\<lambda>(env, frameTotal, ss, st). length ss)") auto

text \<open>
  The \<open>try\<close> block: what it threw, if anything, the local \<open>data\<close>, and the state.
\<close>

definition tryMux :: "Env \<Rightarrow> Attempt \<Rightarrow> error option \<times> nat list option \<times> Attempt" where
  "tryMux env st =
    (case exec env st of
       (Some e, st1) \<Rightarrow> (Some e, None, st1)
     | (None, st1) \<Rightarrow>
         (let st2 = onStage Muxing (9 / 10) st1
          in case readFile env ''output.mp4'' st2 of
               Inl e \<Rightarrow> (Some e, None, st2)
             | Inr (Text t) \<Rightarrow> (Some (Error ''Unexpected encoder output format.''), None, st2)
             | Inr (Uint8Array fileData) \<Rightarrow> (None, Some fileData, onStage Muxing 1 st2)))"

text \<open>
  \<open>synthesizeVideo\<close>: the bytes of the blob it resolves to, or what it threw, and the
  state the attempt leaves.  The \<open>finally\<close> clause runs \<open>cleanupFfmpeg\<close> however the
  \<open>try\<close> block ended, and an error thrown there is thrown on afterwards.
\<close>

definition synthesizeVideo :: "Env \<Rightarrow> Scene list \<Rightarrow> Attempt \<Rightarrow> (error + nat list) \<times> Attempt" where
  "synthesizeVideo env ss st =
    (if ss = [] then (Inl (Error ''Add at least one scene before rendering.''), st)
     else
       case loadEncoder env st of
         (Some e, st1) \<Rightarrow> (Inl e, st1)
       | (None, st1) \<Rightarrow>
           if \<not> getContext_ok env
           then (Inl (Error ''Unable to access 2D context for rendering.''), st1)
           else
             (let st2 = st1\<lparr>canvasContext := freshContext, writtenFiles := [], frameIndex := 0\<rparr>
              in case sceneLoop env (totalFrames ss) ss st2 of
                   (Some e, st3) \<Rightarrow> (Inl e, st3)
                 | (None, st3) \<Rightarrow>
                     (let st4 = onStage Muxing (1 / 10) st3
                      in case tryMux env st4 of
                           (thrown, data, st5) \<Rightarrow>
                             (let st6 = cleanupFfmpeg env (writtenFiles st5) st5
                              in case thrown of
                                   Some e \<Rightarrow> (Inl e, st6)
                                 | None \<Rightarrow>
                                     (case data of
                                        None \<Rightarrow>
                                          (Inl (Error ''Failed to read rendered video output.''), st6)
                                      | Some bytes \<Rightarrow> (Inr bytes, st6))))))"

text \<open>
  \<open>handleRender\<close>, as far as the render state goes: \<open>ready\<close> when \<open>synthesizeVideo\<close>
  resolves, \<open>error\<close> with the message when it throws.
\<close>

datatype RenderOutcome = Ready "nat list" | Failed error

definition handleRender :: "Env \<Rightarrow> Scene list \<Rightarrow> Attempt \<Rightarrow> RenderOutcome \<times> Attempt" where
  "handleRender env ss st =
    (case synthesizeVideo env ss st of
       (Inr blob, st1) \<Rightarrow> (Ready blob, st1)
     | (Inl e, st1) \<Rightarrow> (Failed e, st1))"

section \<open>Notions used to state the properties\<close>

definition durationInBounds :: "Scene \<Rightarrow> bool" where
  "durationInBounds scene =
     (MIN_DURATION \<le> duration scene \<and> duration scene \<le> MAX_DURATION)"

text \<open>
  The identifiers \<open>nanoid()\<close> hands to \<open>addScene\<close> along a sequence of events are new:
  none is among \<open>used\<close>, the identifiers handed out before.
\<close>

fun nanoidFresh :: "string list \<Rightarrow> HomeEvent list \<Rightarrow> bool" where
  "nanoidFresh used [] = True"
| "nanoidFresh used (AddScene newId # evs) =
     (newId \<notin> set used \<and> nanoidFresh (newId # used) evs)"
| "nanoidFresh used (ev # evs) = nanoidFresh used evs"

definition sceneListInv :: "string list \<Rightarrow> Home \<Rightarrow> bool" where
  "sceneListInv used st =
     (distinct (map scene_id (scenes st)) \<and> set (map scene_id (scenes st)) \<subseteq> set used
      \<and> 1 \<le> length (scenes st) \<and> length (scenes st) \<le> MAX_SCENES)"


text \<open>The calls a drawing routine issues when run on a fresh surface.\<close>

definition issuedOnFresh :: "(Context \<Rightarrow> Context) \<Rightarrow> CanvasCall list" where
  "issuedOnFresh f = issued (f freshContext)"

text \<open>The progress values reported for the stage \<open>frames\<close>, in order.\<close>

definition framesProgress :: "Attempt \<Rightarrow> real list" where
  "framesProgress st = map snd (filter (\<lambda>report. fst report = Frames) (stageLog st))"

text \<open>
  Between two states of an attempt exactly \<open>k\<close> more frames were handed to the
  encoder, and nothing else was done to the encoder or reported.
\<close>

definition wroteFrames :: "nat \<Rightarrow> nat \<Rightarrow> Attempt \<Rightarrow> Attempt \<Rightarrow> bool" where
  "wroteFrames frameTotal k st st' =
     (frameIndex st' = frameIndex st + k
      \<and> writtenFiles st' = writtenFiles st @ map frameFilename [frameIndex st..<frameIndex st + k]
      \<and> stageLog st' = stageLog st
           @ map (\<lambda>j. (Frames, real j / real frameTotal)) [frameIndex st + 1..<frameIndex st + k + 1]
      \<and> dom (storage st') = dom (storage st) \<union> frameFilename ` {frameIndex st..<frameIndex st + k}
      \<and> deleteCalls st' = deleteCalls st
      \<and> encoderLoaded st' = encoderLoaded st)"

text \<open>
  Between two states of an attempt \<open>writeFile\<close> was called \<open>n\<close> times, with the names
  of the next \<open>n\<close> frame indices in order, and all of these calls but possibly the
  last were accepted.
\<close>

definition handedOver :: "nat \<Rightarrow> Attempt \<Rightarrow> Attempt \<Rightarrow> bool" where
  "handedOver n st st' =
     (writeCalls st' = writeCalls st @ map frameFilename [frameIndex st..<frameIndex st + n]
      \<and> frameIndex st' \<le> frameIndex st + n
      \<and> frameIndex st + n \<le> frameIndex st' + 1)"

text \<open>
  The durations lie on the half-second grid of the editor, are one second or more,
  and add up to less than \<open>2^47\<close> seconds.
\<close>

definition onHalfSteps :: "Scene list \<Rightarrow> bool" where
  "onHalfSteps ss =
     ((\<forall>scene\<in>set ss. \<exists>m::nat. 2 \<le> m \<and> duration scene = real m / 2)
      \<and> sum_list (map duration ss) < 2 ^ 47)"

text \<open>The number a string of decimal digits denotes.\<close>

definition digitValue :: "char \<Rightarrow> nat" where
  "digitValue c = of_char c - 48"

definition decimalValue :: "string \<Rightarrow> nat" where
  "decimalValue s = foldl (\<lambda>acc c. 10 * acc + digitValue c) 0 s"

text \<open>
  Collaborators for concrete runs: a one-entry gradient table, a text measure of ten
  units per character, and an encoder that accepts a write exactly when
  \<open>accepts\<close> says so and whose \<open>exec\<close> ends as given.
\<close>

definition aurora :: GradientSpec where
  "aurora = \<lparr> gradient_id = ''aurora'', label = ''Aurora'', angle = 135,
               stops = [(0, ''#0ea5e9''), (1, ''#6366f1'')] \<rparr>"

definition testEnv :: "(string \<Rightarrow> bool) \<Rightarrow> ExecOutcome \<Rightarrow> Env" where
  "testEnv accepts outcome =
    \<lparr> registry = [aurora],
      textMeasure = (\<lambda>fnt t. 10 * real (length t)),
      getFFmpeg_ok = True,
      getContext_ok = True,
      atob_ok = True,
      toPng = (\<lambda>ctx. [length (issued ctx)]),
      writeFile_ok = accepts,
      exec_outcome = (\<lambda>files. outcome),
      readFile_ok = (\<lambda>name. True),
      deleteFile_ok = (\<lambda>name. True) \<rparr>"

definition testScene :: "real \<Rightarrow> Scene" where
  "testScene d =
    \<lparr> scene_id = ''s'', title = ''Hello world'', description = ''A short line'',
      duration = d, gradientId = ''aurora'', textColor = ''#f8fafc'',
      accent = ''#facc15'', animation = Zoom \<rparr>"

section \<open>Properties\<close>

subsection \<open>Double arithmetic\<close>

declare binadeNat.simps [simp del]

lemma binadeNat_bounds: "0 < n \<Longrightarrow> 2 ^ binadeNat n \<le> n \<and> n < 2 ^ Suc (binadeNat n)"
proof (induction n rule: binadeNat.induct)
  case (1 n)
  show ?case
  proof (cases "n < 2")
    case True
    with "1.prems" have "n = 1" by simp
    then show ?thesis by (simp add: binadeNat.simps [of "Suc 0"])
  next
    case False
    then have "0 < n div 2" by simp
    with "1.IH" False have "2 ^ binadeNat (n div 2) \<le> n div 2 \<and> n div 2 < 2 ^ Suc (binadeNat (n div 2))"
      by simp
    with False show ?thesis
      by (simp add: binadeNat.simps [of n]) presburger
  qed
qed

lemma pow2_interval_unique:
  assumes "(2::nat) ^ j \<le> n" "n < 2 ^ Suc j" "2 ^ k \<le> n" "n < 2 ^ Suc k"
  shows "j = k"
proof (rule ccontr)
  assume "j \<noteq> k"
  then consider "Suc j \<le> k" | "Suc k \<le> j" by linarith
  then show False
  proof cases
    case 1
    then have "(2::nat) ^ Suc j \<le> 2 ^ k" by (intro power_increasing) simp_all
    with assms show False by linarith
  next
    case 2
    then have "(2::nat) ^ Suc k \<le> 2 ^ j" by (intro power_increasing) simp_all
    with assms show False by linarith
  qed
qed

lemma binadeNat_unique: "2 ^ k \<le> n \<Longrightarrow> n < 2 ^ Suc k \<Longrightarrow> binadeNat n = k"
proof -
  assume a: "2 ^ k \<le> n" "n < 2 ^ Suc k"
  then have "0 < n" by (metis less_le_trans zero_less_numeral zero_less_power)
  from binadeNat_bounds [OF this] a show ?thesis
    by (intro pow2_interval_unique [of "binadeNat n" n k]) simp_all
qed

lemma binade_eq:
  assumes "2 ^ k \<le> x" and "x < 2 ^ Suc k"
  shows "binade x = int k"
proof -
  have one: "1 \<le> x" using assms(1) one_le_power [of "2::real" k] by linarith
  have "int (2 ^ k) \<le> \<lfloor>x\<rfloor>" using assms(1) by (simp add: le_floor_iff)
  then have lo: "2 ^ k \<le> nat \<lfloor>x\<rfloor>" by linarith
  have "\<lfloor>x\<rfloor> < 2 ^ Suc k"
    using assms(2) by (metis floor_less_iff of_int_numeral of_int_power)
  then have hi: "nat \<lfloor>x\<rfloor> < 2 ^ Suc k"
    using one by (simp add: nat_less_iff)
  from binadeNat_unique [OF lo hi] one show ?thesis by (simp add: binade_def)
qed

lemma toDouble_eval:
  assumes "2 ^ k \<le> x" and "x < 2 ^ Suc k" and "k \<le> 52"
  shows "toDouble x = of_int (roundTiesToEven (x * 2 ^ (52 - k))) / 2 ^ (52 - k)"
proof -
  have pos: "0 < x" using assms(1) by (meson less_le_trans zero_less_numeral zero_less_power)
  have "pow2 (int k - 52) = 1 / 2 ^ (52 - k)"
  proof (cases "k = 52")
    case True
    then show ?thesis by (simp add: pow2_def)
  next
    case False
    with assms(3) have "k < 52" by simp
    then have "nat (52 - int k) = 52 - k" by simp
    with \<open>k < 52\<close> show ?thesis by (simp add: pow2_def)
  qed
  with pos binade_eq [OF assms(1,2)] show ?thesis
    by (simp add: toDouble_def Let_def)
qed

lemma roundTiesToEven_int: "roundTiesToEven (of_int z) = z"
  by (simp add: roundTiesToEven_def)

text \<open>Multiples of one half below \<open>2^52\<close> are doubles: rounding leaves them alone.\<close>

lemma toDouble_half:
  assumes "2 \<le> k" and "k < 2 ^ 53"
  shows "toDouble (real k / 2) = real k / 2"
proof -
  let ?x = "real k / 2"
  have one: "1 \<le> ?x" using assms(1) by simp
  then have fpos: "0 < nat \<lfloor>?x\<rfloor>" by linarith
  let ?n = "binadeNat (nat \<lfloor>?x\<rfloor>)"
  from binadeNat_bounds [OF fpos]
  have b: "2 ^ ?n \<le> nat \<lfloor>?x\<rfloor>" "nat \<lfloor>?x\<rfloor> < 2 ^ Suc ?n" by simp_all
  have lo: "2 ^ ?n \<le> ?x"
  proof -
    from b(1) have "real (2 ^ ?n) \<le> real (nat \<lfloor>?x\<rfloor>)" by (rule of_nat_mono)
    also have "\<dots> = real_of_int \<lfloor>?x\<rfloor>" using one by (simp add: of_nat_nat)
    also have "\<dots> \<le> ?x" by (rule of_int_floor_le)
    finally show ?thesis by simp
  qed
  have hi: "?x < 2 ^ Suc ?n"
  proof -
    from b(2) have "Suc (nat \<lfloor>?x\<rfloor>) \<le> 2 ^ Suc ?n" by simp
    then have A: "real (Suc (nat \<lfloor>?x\<rfloor>)) \<le> real (2 ^ Suc ?n)" by (rule of_nat_mono)
    have B: "real (Suc (nat \<lfloor>?x\<rfloor>)) = real_of_int \<lfloor>?x\<rfloor> + 1"
      using one by (simp add: of_nat_nat)
    have C: "?x < real_of_int \<lfloor>?x\<rfloor> + 1" by linarith
    from A B C have "?x < real (2 ^ Suc ?n)" by linarith
    then show ?thesis by simp
  qed
  have "(2::real) ^ ?n < 2 ^ 52"
  proof -
    from assms(2) have "real k < real (2 ^ 53)" by (simp only: of_nat_less_iff)
    then have "?x < 2 ^ 52" by simp
    with lo show ?thesis by linarith
  qed
  then have n: "?n < 52" by (rule power_less_imp_less_exp [of "2::real", rotated]) simp
  then obtain j where j: "52 - ?n = Suc j" by (cases "52 - ?n") auto
  have "?x * 2 ^ (52 - ?n) = of_int (int (k * 2 ^ j))" unfolding j by simp
  then have "roundTiesToEven (?x * 2 ^ (52 - ?n)) = int (k * 2 ^ j)"
    by (simp only: roundTiesToEven_int)
  moreover have "real_of_int (int (k * 2 ^ j)) / 2 ^ (52 - ?n) = ?x" unfolding j by simp
  ultimately show ?thesis
    using toDouble_eval [OF lo hi] n by simp
qed

lemma toDouble_nat: "1 \<le> k \<Longrightarrow> k < 2 ^ 52 \<Longrightarrow> toDouble (real k) = real k"
  using toDouble_half [of "2 * k"] by simp

lemma double_times_2: "double_times 2 24 = 48"
  unfolding double_times_def by (subst toDouble_eval [of 5]) (simp_all add: roundTiesToEven_def)

lemma double_times_8: "double_times 8 24 = 192"
  unfolding double_times_def by (subst toDouble_eval [of 7]) (simp_all add: roundTiesToEven_def)

lemma double_times_4: "double_times 4 24 = 96"
  unfolding double_times_def by (subst toDouble_eval [of 6]) (simp_all add: roundTiesToEven_def)

lemma double_times_7_2: "double_times (7 / 2) 24 = 84"
  unfolding double_times_def by (subst toDouble_eval [of 6]) (simp_all add: roundTiesToEven_def)

lemma double_times_3: "double_times 3 24 = 72"
  unfolding double_times_def by (subst toDouble_eval [of 6]) (simp_all add: roundTiesToEven_def)

lemma double_times_202: "double_times (101 / 50) 24 = 6822953435466301 / 140737488355328"
  unfolding double_times_def by (subst toDouble_eval [of 5]) (simp_all add: roundTiesToEven_def)

lemma double_times_203: "double_times (203 / 100) 24 = 1714182608167895 / 35184372088832"
  unfolding double_times_def by (subst toDouble_eval [of 5]) (simp_all add: roundTiesToEven_def)

lemma double_times_33_16: "double_times (33 / 16) 24 = 99 / 2"
  unfolding double_times_def by (subst toDouble_eval [of 5]) (simp_all add: roundTiesToEven_def)

lemma double_times_35_16: "double_times (35 / 16) 24 = 105 / 2"
  unfolding double_times_def by (subst toDouble_eval [of 5]) (simp_all add: roundTiesToEven_def)

lemma double_times_65_32: "double_times (65 / 32) 24 = 195 / 4"
  unfolding double_times_def by (subst toDouble_eval [of 5]) (simp_all add: roundTiesToEven_def)

lemma double_times_129_64: "double_times (129 / 64) 24 = 387 / 8"
  unfolding double_times_def by (subst toDouble_eval [of 5]) (simp_all add: roundTiesToEven_def)

lemma double_times_v9: "double_times (4738162107962709 / 2251799813685248) 24 = 101 / 2"
  unfolding double_times_def by (subst toDouble_eval [of 5]) (simp_all add: roundTiesToEven_def)

lemma double_sumA1: "double_plus 0 4 = 4"
  unfolding double_plus_def by (subst toDouble_eval [of 2]) (simp_all add: roundTiesToEven_def)

lemma double_sumA2: "double_plus 4 (7 / 2) = 15 / 2"
  unfolding double_plus_def by (subst toDouble_eval [of 2]) (simp_all add: roundTiesToEven_def)

lemma double_sumA3: "double_plus (15 / 2) 3 = 21 / 2"
  unfolding double_plus_def by (subst toDouble_eval [of 3]) (simp_all add: roundTiesToEven_def)

lemma double_totA: "double_times (21 / 2) 24 = 252"
  unfolding double_times_def by (subst toDouble_eval [of 7]) (simp_all add: roundTiesToEven_def)

lemma double_sum1_202: "double_plus 0 (101 / 50) = 4548635623644201 / 2251799813685248"
  unfolding double_plus_def by (subst toDouble_eval [of 1]) (simp_all add: roundTiesToEven_def)

lemma double_sum2_202: "double_plus (4548635623644201 / 2251799813685248) (101 / 50) = 4548635623644201 / 1125899906842624"
  unfolding double_plus_def by (subst toDouble_eval [of 2]) (simp_all add: roundTiesToEven_def)

lemma double_tot2_202: "double_times (4548635623644201 / 1125899906842624) 24 = 3411476717733151 / 35184372088832"
  unfolding double_times_def by (subst toDouble_eval [of 6]) (simp_all add: roundTiesToEven_def)

lemma double_tot1_202: "double_times (4548635623644201 / 2251799813685248) 24 = 3411476717733151 / 70368744177664"
  unfolding double_times_def by (subst toDouble_eval [of 5]) (simp_all add: roundTiesToEven_def)

lemma double_sum1_203: "double_plus 0 (203 / 100) = 4571153621781053 / 2251799813685248"
  unfolding double_plus_def by (subst toDouble_eval [of 1]) (simp_all add: roundTiesToEven_def)

lemma double_sum2_203: "double_plus (4571153621781053 / 2251799813685248) (203 / 100) = 4571153621781053 / 1125899906842624"
  unfolding double_plus_def by (subst toDouble_eval [of 2]) (simp_all add: roundTiesToEven_def)

lemma double_tot2_203: "double_times (4571153621781053 / 1125899906842624) 24 = 1714182608167895 / 17592186044416"
  unfolding double_times_def by (subst toDouble_eval [of 6]) (simp_all add: roundTiesToEven_def)

lemma double_tot1_203: "double_times (4571153621781053 / 2251799813685248) 24 = 1714182608167895 / 35184372088832"
  unfolding double_times_def by (subst toDouble_eval [of 5]) (simp_all add: roundTiesToEven_def)

lemma double_sum1_2: "double_plus 0 2 = 2"
  unfolding double_plus_def by (subst toDouble_eval [of 1]) (simp_all add: roundTiesToEven_def)

lemma double_sum2_2: "double_plus 2 2 = 4"
  unfolding double_plus_def by (subst toDouble_eval [of 2]) (simp_all add: roundTiesToEven_def)

lemma double_sum1_129_64: "double_plus 0 (129 / 64) = 129 / 64"
  unfolding double_plus_def by (subst toDouble_eval [of 1]) (simp_all add: roundTiesToEven_def)

lemma double_sum2_129_64: "double_plus (129 / 64) (129 / 64) = 129 / 32"
  unfolding double_plus_def by (subst toDouble_eval [of 2]) (simp_all add: roundTiesToEven_def)

lemma double_tot2_129_64: "double_times (129 / 32) 24 = 387 / 4"
  unfolding double_times_def by (subst toDouble_eval [of 6]) (simp_all add: roundTiesToEven_def)

lemma double_sum1_d202: "double_plus 0 (4548635623644201 / 2251799813685248) = 4548635623644201 / 2251799813685248"
  unfolding double_plus_def by (subst toDouble_eval [of 1]) (simp_all add: roundTiesToEven_def)

lemma double_sum2_d202: "double_plus (4548635623644201 / 2251799813685248) (4548635623644201 / 2251799813685248) = 4548635623644201 / 1125899906842624"
  unfolding double_plus_def by (subst toDouble_eval [of 2]) (simp_all add: roundTiesToEven_def)

lemmas double_values =
  double_times_2
  double_times_8
  double_times_4
  double_times_7_2
  double_times_3
  double_times_202
  double_times_203
  double_times_33_16
  double_times_35_16
  double_times_65_32
  double_times_129_64
  double_times_v9
  double_sumA1
  double_sumA2
  double_sumA3
  double_totA
  double_sum1_202
  double_sum2_202
  double_tot2_202
  double_tot1_202
  double_sum1_203
  double_sum2_203
  double_tot2_203
  double_tot1_203
  double_sum1_2
  double_sum2_2
  double_sum1_129_64
  double_sum2_129_64
  double_tot2_129_64
  double_sum1_d202
  double_sum2_d202

lemma clamp_in_bounds: "lo \<le> hi \<Longrightarrow> lo \<le> clamp v lo hi \<and> clamp v lo hi \<le> hi"
  by (simp add: clamp_def)

lemma sceneEditorChange_bounds:
  "durationInBounds scene \<Longrightarrow> durationInBounds (sceneEditorChange scene ev)"
  by (cases ev) (simp_all add: durationInBounds_def clamp_def MIN_DURATION_def MAX_DURATION_def)

lemma initial_bounds: "list_all durationInBounds (buildInitialScenes i1 i2 i3)"
  by (simp add: buildInitialScenes_def durationInBounds_def MIN_DURATION_def MAX_DURATION_def)

lemma activeScene_mem: "activeScene st = Some a \<Longrightarrow> a \<in> set (scenes st)"
  by (auto simp: activeScene_def split: option.splits list.splits dest: find_Some_iff[THEN iffD1] )

lemma addScene_bounds:
  "list_all durationInBounds (scenes st) \<Longrightarrow> list_all durationInBounds (scenes (addScene G newId st))"
  by (simp add: addScene_def Let_def durationInBounds_def clamp_def MIN_DURATION_def MAX_DURATION_def)

lemma removeScene_bounds:
  "list_all durationInBounds (scenes st) \<Longrightarrow> list_all durationInBounds (scenes (removeScene i st))"
  by (simp add: removeScene_def list_all_iff)

lemma editScene_bounds:
  assumes "list_all durationInBounds (scenes st)"
  shows "list_all durationInBounds (scenes (editScene ev st))"
proof (cases "activeScene st")
  case None
  then show ?thesis using assms by (simp add: editScene_def)
next
  case (Some a)
  then have "a \<in> set (scenes st)" by (rule activeScene_mem)
  with assms have "durationInBounds a" by (simp add: list_all_iff)
  then have "durationInBounds (sceneEditorChange a ev)" by (rule sceneEditorChange_bounds)
  with assms Some show ?thesis
    by (auto simp: editScene_def updateScene_def list_all_iff)
qed

lemma handle_bounds:
  "list_all durationInBounds (scenes st) \<Longrightarrow> list_all durationInBounds (scenes (handle G st ev))"
  by (cases ev) (simp_all add: addScene_bounds removeScene_bounds editScene_bounds)

lemma run_bounds:
  "list_all durationInBounds (scenes st) \<Longrightarrow> list_all durationInBounds (scenes (run G st evs))"
  unfolding run_def by (induction evs arbitrary: st) (simp_all add: handle_bounds)

lemma initialHome_bounds: "list_all durationInBounds (scenes (initialHome i1 i2 i3))"
  by (simp add: initialHome_def Let_def initial_bounds)

text \<open>
  Claim C9.  Every scene's duration is within \<open>[MIN_DURATION, MAX_DURATION] = [2, 8]\<close>
  after every sequence of scene-list events starting from the initial scenes; a
  duration edit stores the entered number clamped into the bounds; and every single
  event keeps the bound.  (\<open>Number(event.target.value)\<close> of a numeric input is a
  number, never \<open>NaN\<close>: an empty or malformed field reads as \<open>0\<close>.)
\<close>

theorem durations_stay_within_bounds: "list_all durationInBounds (scenes (run G (initialHome i1 i2 i3) evs))
  \<and> durationInBounds (sceneEditorChange scene (EditDuration v))
  \<and> (list_all durationInBounds (scenes st) \<longrightarrow> list_all durationInBounds (scenes (handle G st ev)))"
  by (simp add: run_bounds initialHome_bounds handle_bounds sceneEditorChange_bounds durationInBounds_def clamp_def MIN_DURATION_def MAX_DURATION_def)


theorem durations_stay_within_bounds_witness:
  "list_all durationInBounds
     (scenes (run [] (initialHome ''a'' ''b'' ''c'')
        [SelectScene ''b'', EditScene (EditDuration 100), EditScene (EditDuration (-3))]))
   \<and> durationInBounds (sceneEditorChange (hd (buildInitialScenes ''a'' ''b'' ''c'')) (EditDuration 100))
   \<and> duration (sceneEditorChange (hd (buildInitialScenes ''a'' ''b'' ''c'')) (EditDuration 100)) = 8
   \<and> map duration (scenes (run [] (initialHome ''a'' ''b'' ''c'')
        [SelectScene ''b'', EditScene (EditDuration 100)])) = [4, 8, 3]"
  using durations_stay_within_bounds [of "[]" "''a''" "''b''" "''c''"
      "[SelectScene ''b'', EditScene (EditDuration 100), EditScene (EditDuration (-3))]"
      "hd (buildInitialScenes ''a'' ''b'' ''c'')" 100 "initialHome ''a'' ''b'' ''c''" "SelectScene ''b''"]
  by (simp add: run_def initialHome_def buildInitialScenes_def editScene_def activeScene_def
      updateScene_def clamp_def MIN_DURATION_def MAX_DURATION_def)

lemma filter_distinct_length:
  "distinct (map f xs) \<Longrightarrow> length xs \<le> Suc (length (filter (\<lambda>x. f x \<noteq> i) xs))"
proof (induction xs)
  case Nil
  then show ?case by simp
next
  case (Cons x xs)
  show ?case
  proof (cases "f x = i")
    case True
    with Cons.prems have "\<forall>y\<in>set xs. f y \<noteq> i" by (auto simp: image_iff)
    then have "filter (\<lambda>x. f x \<noteq> i) xs = xs" by (simp add: filter_id_conv)
    with True show ?thesis by simp
  next
    case False
    with Cons show ?thesis by simp
  qed
qed

lemma removeScene_inv: "sceneListInv used st \<Longrightarrow> sceneListInv used (removeScene i st)"
proof -
  assume inv: "sceneListInv used st"
  show ?thesis
  proof (cases "length (scenes st) = 1")
    case True
    with inv show ?thesis by (simp add: removeScene_def)
  next
    case False
    from inv have d: "distinct (map scene_id (scenes st))" by (simp add: sceneListInv_def)
    from filter_distinct_length [OF d, of i]
    have "length (scenes st) \<le> Suc (length (filter (\<lambda>x. scene_id x \<noteq> i) (scenes st)))" .
    moreover from inv False have "2 \<le> length (scenes st)" by (simp add: sceneListInv_def)
    ultimately have "1 \<le> length (filter (\<lambda>x. scene_id x \<noteq> i) (scenes st))" by linarith
    moreover have "length (filter (\<lambda>x. scene_id x \<noteq> i) (scenes st)) \<le> MAX_SCENES"
    proof -
      have a: "length (filter (\<lambda>x. scene_id x \<noteq> i) (scenes st)) \<le> length (scenes st)"
        by (rule length_filter_le)
      from inv have b: "length (scenes st) \<le> MAX_SCENES" by (simp add: sceneListInv_def)
      from a b show ?thesis by (rule le_trans)
    qed
    ultimately show ?thesis using inv False
      by (auto simp: removeScene_def sceneListInv_def distinct_map_filter)
  qed
qed

lemma sceneEditorChange_id: "scene_id (sceneEditorChange scene ev) = scene_id scene"
  by (cases ev) simp_all

lemma editScene_ids: "map scene_id (scenes (editScene ev st)) = map scene_id (scenes st)"
  by (auto simp: editScene_def updateScene_def sceneEditorChange_id split: option.splits)

lemma editScene_length: "length (scenes (editScene ev st)) = length (scenes st)"
  by (simp add: editScene_def updateScene_def split: option.splits)

lemma editScene_inv: "sceneListInv used st \<Longrightarrow> sceneListInv used (editScene ev st)"
  by (simp add: sceneListInv_def editScene_ids editScene_length)

lemma addScene_inv:
  "sceneListInv used st \<Longrightarrow> newId \<notin> set used \<Longrightarrow> sceneListInv (newId # used) (addScene G newId st)"
  by (auto simp: addScene_def sceneListInv_def Let_def)

lemma run_inv:
  "sceneListInv used st \<Longrightarrow> nanoidFresh used evs \<Longrightarrow> \<exists>used'. sceneListInv used' (run G st evs)"
proof (induction evs arbitrary: used st)
  case Nil
  then show ?case by (auto simp: run_def)
next
  case (Cons ev evs)
  show ?case
  proof (cases ev)
    case (AddScene newId)
    with Cons.prems have "sceneListInv (newId # used) (handle G st ev)"
      and "nanoidFresh (newId # used) evs"
      by (simp_all add: addScene_inv)
    from Cons.IH [OF this] show ?thesis by (simp add: run_def)
  next
    case (RemoveScene i)
    with Cons.prems have "sceneListInv used (handle G st ev)" and "nanoidFresh used evs"
      by (simp_all add: removeScene_inv)
    from Cons.IH [OF this] show ?thesis by (simp add: run_def)
  next
    case (SelectScene i)
    with Cons.prems have "sceneListInv used (handle G st ev)" and "nanoidFresh used evs"
      by (simp_all add: sceneListInv_def)
    from Cons.IH [OF this] show ?thesis by (simp add: run_def)
  next
    case (EditScene e)
    with Cons.prems have "sceneListInv used (handle G st ev)" and "nanoidFresh used evs"
      by (simp_all add: editScene_inv)
    from Cons.IH [OF this] show ?thesis by (simp add: run_def)
  qed
qed

lemma initialHome_inv: "distinct [i1, i2, i3] \<Longrightarrow> sceneListInv [i1, i2, i3] (initialHome i1 i2 i3)"
  by (auto simp: sceneListInv_def initialHome_def buildInitialScenes_def MAX_SCENES_def)

text \<open>
  Claim C10.  Starting from the three initial scenes, after every sequence of
  scene-list events the number of scenes is at least 1 and at most
  \<open>MAX_SCENES = 6\<close>; \<open>removeScene\<close> on a single-scene list and \<open>addScene\<close> on a list of
  six scenes change nothing.  Scene identifiers are unique, as the data model has
  it: the identifiers \<open>nanoid()\<close> returns are pairwise different.
\<close>

theorem scene_count_within_bounds:
  assumes "distinct [i1, i2, i3]" and "nanoidFresh [i1, i2, i3] evs"
  shows "1 \<le> length (scenes (run G (initialHome i1 i2 i3) evs))
    \<and> length (scenes (run G (initialHome i1 i2 i3) evs)) \<le> MAX_SCENES
    \<and> MAX_SCENES = 6
    \<and> (length (scenes st) = 1 \<longrightarrow> removeScene i st = st)
    \<and> (length (scenes st) = MAX_SCENES \<longrightarrow> addScene G newId st = st)"
proof -
  from run_inv [OF initialHome_inv [OF assms(1)] assms(2)]
  obtain used' where "sceneListInv used' (run G (initialHome i1 i2 i3) evs)" ..
  then show ?thesis
    by (simp add: sceneListInv_def removeScene_def addScene_def MAX_SCENES_def)
qed

theorem scene_count_within_bounds_witness:
  "1 \<le> length (scenes (run [aurora] (initialHome ''a'' ''b'' ''c'')
            [RemoveScene ''a'', RemoveScene ''b'', RemoveScene ''c'', AddScene ''d'']))
   \<and> length (scenes (run [aurora] (initialHome ''a'' ''b'' ''c'')
            [RemoveScene ''a'', RemoveScene ''b'', RemoveScene ''c'', AddScene ''d'']))
        \<le> MAX_SCENES
   \<and> removeScene ''s'' \<lparr>scenes = [testScene 2], selectedSceneId = ''s''\<rparr>
        = \<lparr>scenes = [testScene 2], selectedSceneId = ''s''\<rparr>
   \<and> addScene [aurora] ''n'' \<lparr>scenes = replicate 6 (testScene 2), selectedSceneId = ''s''\<rparr>
        = \<lparr>scenes = replicate 6 (testScene 2), selectedSceneId = ''s''\<rparr>"
proof -
  have d: "distinct [''a'', ''b'', ''c'']" by simp
  have f: "nanoidFresh [''a'', ''b'', ''c'']
             [RemoveScene ''a'', RemoveScene ''b'', RemoveScene ''c'', AddScene ''d'']"
    by simp
  let ?st1 = "\<lparr>scenes = [testScene 2], selectedSceneId = ''s''\<rparr>"
  let ?st6 = "\<lparr>scenes = replicate 6 (testScene 2), selectedSceneId = ''s''\<rparr>"
  have l1: "length (scenes ?st1) = 1" by simp
  have l6: "length (scenes ?st6) = MAX_SCENES" by (simp add: MAX_SCENES_def)
  note one = scene_count_within_bounds [OF d f, where G = "[aurora]" and i = "''s''"
      and newId = "''n''" and st = ?st1]
  note six = scene_count_within_bounds [OF d f, where G = "[aurora]" and i = "''s''"
      and newId = "''n''" and st = ?st6]
  from one have b: "1 \<le> length (scenes (run [aurora] (initialHome ''a'' ''b'' ''c'')
            [RemoveScene ''a'', RemoveScene ''b'', RemoveScene ''c'', AddScene ''d'']))"
    and c: "length (scenes (run [aurora] (initialHome ''a'' ''b'' ''c'')
            [RemoveScene ''a'', RemoveScene ''b'', RemoveScene ''c'', AddScene ''d'']))
        \<le> MAX_SCENES"
    by blast+
  from one l1 have r: "removeScene ''s'' ?st1 = ?st1" by blast
  from six l6 have a: "addScene [aurora] ''n'' ?st6 = ?st6" by blast
  from b c r a show ?thesis by blast
qed

lemmas canvas_defs =
  save_def restore_def translate_def scale_def rotate_ctx_def applyTransform_def
  set_fillStyle_def set_globalAlpha_def set_font_def set_textBaseline_def
  fillRect_def fillText_def emit_def

lemma fillLines_eq:
  "fillLines ls step (ctx, y) =
     (ctx\<lparr>issued := issued ctx @ map (\<lambda>i. FillText (ls ! i) 0 (y + step * real i)) [0..<length ls]\<rparr>,
      y + step * real (length ls))"
proof (induction ls arbitrary: ctx y)
  case Nil
  then show ?case by simp
next
  case (Cons l ls)
  have "map (\<lambda>i. FillText ((l # ls) ! i) 0 (y + step * real i)) [0..<length (l # ls)]
        = FillText l 0 y # map (\<lambda>i. FillText (ls ! i) 0 (y + step + step * real i)) [0..<length ls]"
    by (simp add: upt_conv_Cons map_Suc_upt [symmetric] algebra_simps del: upt_Suc)
  then show ?case
    by (simp add: Cons.IH fillText_def emit_def algebra_simps del: upt_Suc)
qed

lemma drawGradient_eq:
  "drawGradient w h g ctx =
     ctx\<lparr>drawState := (drawState ctx)\<lparr>fillStyle := PaletteGradient w h g\<rparr>,
         issued := issued ctx @ issuedOnFresh (drawGradient w h g)\<rparr>"
  unfolding drawGradient_def issuedOnFresh_def Let_def
  by (simp add: canvas_defs freshContext_def)

lemma drawMist_eq:
  "\<exists>mist. \<forall>ctx. drawMist ctx =
     ctx\<lparr>drawState := (drawState ctx)\<lparr>fillStyle := mist\<rparr>,
         issued := issued ctx @ issuedOnFresh drawMist\<rparr>"
  unfolding drawMist_def issuedOnFresh_def Let_def
  by (intro exI allI) (simp add: canvas_defs freshContext_def)

lemma drawAccent_eq:
  "drawAccent a p an ctx = ctx\<lparr>issued := issued ctx @ issuedOnFresh (drawAccent a p an)\<rparr>"
  unfolding drawAccent_def roundedRect_def issuedOnFresh_def Let_def
  by (simp add: canvas_defs freshContext_def split del: if_split)

lemma drawTextBlock_eq:
  "drawTextBlock m scene p ctx =
     ctx\<lparr>issued := issued ctx @ issuedOnFresh (drawTextBlock m scene p)\<rparr>"
  unfolding drawTextBlock_def issuedOnFresh_def Let_def
  by (simp add: wrapText_def fillLines_eq canvas_defs freshContext_def split del: if_split)

lemma renderSceneFrame_resolved:
  assumes "find (\<lambda>entry. gradient_id entry = gradientId scene) G = Some g"
  shows "renderSceneFrame G m scene p ctx =
           (None, ctx\<lparr>issued := issued ctx @ [Save] @ issuedOnFresh (drawGradient CANVAS_WIDTH CANVAS_HEIGHT g)
                     @ issuedOnFresh drawMist @ issuedOnFresh (drawAccent (accent scene) p (animation scene))
                     @ issuedOnFresh (drawTextBlock m scene p) @ [Restore]\<rparr>)"
proof -
  from drawMist_eq obtain mist where
    mist: "\<And>c. drawMist c = c\<lparr>drawState := (drawState c)\<lparr>fillStyle := mist\<rparr>,
                                 issued := issued c @ issuedOnFresh drawMist\<rparr>"
    by blast
  show ?thesis
    unfolding renderSceneFrame_def Let_def
    by (simp add: assms drawTextBlock_eq drawAccent_eq mist drawGradient_eq save_def restore_def emit_def)
qed

text \<open>
  Claim C4.  For a scene whose \<open>gradientId\<close> resolves, \<open>renderSceneFrame\<close> on any
  context, whatever was drawn on it before and whatever its drawing state and
  save stack, succeeds, issues exactly the sequence of drawing calls it issues on
  a fresh surface, and leaves drawing state and save stack as it found them.  So
  two calls with the same scene and progress on fresh surfaces of the fixed size
  issue the same calls, and so does the n-th call on a reused context.  The
  function reads no clock; the rasteriser behind the calls and the font metrics
  are external.
\<close>

theorem render_is_deterministic:
  assumes "find (\<lambda>entry. gradient_id entry = gradientId scene) G = Some g"
  shows "renderSceneFrame G m scene p ctx =
           (None, ctx\<lparr>issued := issued ctx
                          @ issuedOnFresh (\<lambda>c. snd (renderSceneFrame G m scene p c))\<rparr>)"
  unfolding issuedOnFresh_def [of "\<lambda>c. snd (renderSceneFrame G m scene p c)"]
  by (simp add: renderSceneFrame_resolved [OF assms] freshContext_def)

theorem render_is_deterministic_witness:
  "renderSceneFrame [aurora] (\<lambda>fnt t. 10 * real (length t)) (testScene 2) (1 / 2)
      (snd (renderSceneFrame [aurora] (\<lambda>fnt t. 10 * real (length t)) (testScene 2) 0 freshContext))
    = (None, (snd (renderSceneFrame [aurora] (\<lambda>fnt t. 10 * real (length t)) (testScene 2) 0 freshContext))
         \<lparr>issued := issued (snd (renderSceneFrame [aurora] (\<lambda>fnt t. 10 * real (length t)) (testScene 2) 0 freshContext))
            @ issuedOnFresh (\<lambda>c. snd (renderSceneFrame [aurora] (\<lambda>fnt t. 10 * real (length t)) (testScene 2) (1 / 2) c))\<rparr>)"
proof -
  have resolves: "find (\<lambda>entry. gradient_id entry = gradientId (testScene 2)) [aurora] = Some aurora"
    by (simp add: testScene_def aurora_def)
  show ?thesis by (rule render_is_deterministic [OF resolves])
qed

lemma renderSceneFrame_missing:
  "find (\<lambda>entry. gradient_id entry = gradientId scene) G = None \<Longrightarrow>
     renderSceneFrame G m scene p ctx = (Some (missingGradient (gradientId scene)), ctx)"
  by (simp add: renderSceneFrame_def)












lemma wroteFrames_refl: "wroteFrames T 0 st st"
  by (simp add: wroteFrames_def)

lemma upt_split: "[a..<a + j + k] = [a..<a + j] @ [a + j..<a + j + k]"
  by (metis add.assoc le_add1 upt_add_eq_append)

lemma wroteFrames_trans:
  assumes "wroteFrames T j st st1" and "wroteFrames T k st1 st2"
  shows "wroteFrames T (j + k) st st2"
proof -
  have a: "[frameIndex st..<frameIndex st + (j + k)]
           = [frameIndex st..<frameIndex st + j] @ [frameIndex st + j..<frameIndex st + j + k]"
    using upt_split [of "frameIndex st" j k] by (simp add: add.assoc)
  have b: "[frameIndex st + 1..<frameIndex st + (j + k) + 1]
           = [frameIndex st + 1..<frameIndex st + j + 1] @ [frameIndex st + j + 1..<frameIndex st + j + k + 1]"
    using upt_split [of "frameIndex st + 1" j k] by (simp add: add.assoc add.commute add.left_commute)
  have c: "{frameIndex st..<frameIndex st + (j + k)}
           = {frameIndex st..<frameIndex st + j} \<union> {frameIndex st + j..<frameIndex st + j + k}"
    by auto
  from assms show ?thesis
    unfolding wroteFrames_def a b c
    by (simp add: image_Un Un_assoc)
qed

lemma frameBody_wrote:
  assumes "frameBody env T scene n frame st = (r, st')"
  shows "wroteFrames T (if r = None then 1 else 0) st st'"
  using assms
  unfolding frameBody_def Let_def canvasToUint8_def writeFile_def onStage_def wroteFrames_def
  by (auto split: prod.splits option.splits sum.splits if_splits)

lemma frameLoop_wrote:
  "frameLoop env T scene n frame st = (r, st') \<Longrightarrow>
     \<exists>k. k \<le> n - frame \<and> wroteFrames T k st st' \<and> (r = None \<longrightarrow> k = n - frame)"
proof (induction env T scene n frame st rule: frameLoop.induct)
  case (1 env T scene n frame st)
  show ?case
  proof (cases "frame < n")
    case False
    with "1.prems" have "r = None" and "st' = st"
      by (simp_all add: frameLoop.simps [of env T scene n frame st])
    with False show ?thesis by (auto intro: wroteFrames_refl)
  next
    case True
    obtain r1 st1 where body: "frameBody env T scene n frame st = (r1, st1)"
      by (cases "frameBody env T scene n frame st")
    show ?thesis
    proof (cases r1)
      case (Some e)
      with body True "1.prems" have "r = Some e" and "st' = st1"
        by (simp_all add: frameLoop.simps [of env T scene n frame st])
      with frameBody_wrote [OF body] Some show ?thesis by auto
    next
      case None
      with body True "1.prems" have rest: "frameLoop env T scene n (frame + 1) st1 = (r, st')"
        by (simp add: frameLoop.simps [of env T scene n frame st])
      from "1.IH" [OF True _ _ rest] body None
      obtain k where k: "k \<le> n - (frame + 1)" "wroteFrames T k st1 st'"
        "r = None \<longrightarrow> k = n - (frame + 1)"
        by auto
      from frameBody_wrote [OF body] None have "wroteFrames T 1 st st1" by simp
      from wroteFrames_trans [OF this k(2)] have "wroteFrames T (1 + k) st st'" .
      with k True show ?thesis by (intro exI [of _ "1 + k"]) auto
    qed
  qed
qed

lemma sceneLoop_wrote:
  "sceneLoop env T ss st = (r, st') \<Longrightarrow>
     \<exists>k. k \<le> sum_list (map framesForScene ss) \<and> wroteFrames T k st st'
         \<and> (r = None \<longrightarrow> k = sum_list (map framesForScene ss))"
proof (induction ss arbitrary: st)
  case Nil
  then show ?case by (auto intro: wroteFrames_refl)
next
  case (Cons scene rest)
  obtain r1 st1 where inner: "frameLoop env T scene (framesForScene scene) 0 st = (r1, st1)"
    by (cases "frameLoop env T scene (framesForScene scene) 0 st")
  from frameLoop_wrote [OF inner]
  obtain j where j: "j \<le> framesForScene scene" "wroteFrames T j st st1"
    "r1 = None \<longrightarrow> j = framesForScene scene"
    by auto
  show ?case
  proof (cases r1)
    case (Some e)
    with inner Cons.prems have "r = Some e" and "st' = st1" by simp_all
    with j show ?thesis by (intro exI [of _ j]) auto
  next
    case None
    with inner Cons.prems have "sceneLoop env T rest st1 = (r, st')" by simp
    from Cons.IH [OF this]
    obtain k where k: "k \<le> sum_list (map framesForScene rest)" "wroteFrames T k st1 st'"
      "r = None \<longrightarrow> k = sum_list (map framesForScene rest)"
      by auto
    from wroteFrames_trans [OF j(2) k(2)] have "wroteFrames T (j + k) st st'" .
    with j k None show ?thesis by (intro exI [of _ "j + k"]) auto
  qed
qed

subsection \<open>The names passed to \<open>writeFile\<close>\<close>

lemma handedOver_refl: "handedOver 0 st st"
  by (simp add: handedOver_def)

lemma handedOver_trans:
  assumes "handedOver j st st1" and "frameIndex st1 = frameIndex st + j" and "handedOver k st1 st2"
  shows "handedOver (j + k) st st2"
proof -
  have a: "[frameIndex st..<frameIndex st + (j + k)]
           = [frameIndex st..<frameIndex st + j] @ [frameIndex st + j..<frameIndex st + j + k]"
    using upt_split [of "frameIndex st" j k] by (simp add: add.assoc)
  from assms show ?thesis
    unfolding handedOver_def a by (simp add: add.assoc)
qed

lemma frameBody_writeCalls:
  assumes "frameBody env T scene n frame st = (r, st')"
  shows "(r = None \<longrightarrow> writeCalls st' = writeCalls st @ [frameFilename (frameIndex st)])
       \<and> (writeCalls st' = writeCalls st
            \<or> writeCalls st' = writeCalls st @ [frameFilename (frameIndex st)])"
  using assms
  unfolding frameBody_def Let_def canvasToUint8_def writeFile_def onStage_def
  by (auto split: prod.splits option.splits sum.splits if_splits)

lemma frameBody_handed_ok:
  assumes "frameBody env T scene n frame st = (None, st')"
  shows "handedOver 1 st st'"
proof -
  from frameBody_wrote [OF assms] have "frameIndex st' = frameIndex st + 1"
    by (simp add: wroteFrames_def)
  with frameBody_writeCalls [OF assms] show ?thesis by (simp add: handedOver_def)
qed

lemma frameBody_handed_thrown:
  assumes "frameBody env T scene n frame st = (Some e, st')"
  shows "handedOver 0 st st' \<or> handedOver 1 st st'"
proof -
  from frameBody_wrote [OF assms] have "frameIndex st' = frameIndex st"
    by (simp add: wroteFrames_def)
  with frameBody_writeCalls [OF assms] show ?thesis by (auto simp: handedOver_def)
qed

lemma frameLoop_handed:
  "frameLoop env T scene n frame st = (r, st') \<Longrightarrow>
     \<exists>k. handedOver k st st' \<and> (r = None \<longrightarrow> frameIndex st' = frameIndex st + k)"
proof (induction env T scene n frame st rule: frameLoop.induct)
  case (1 env T scene n frame st)
  show ?case
  proof (cases "frame < n")
    case False
    with "1.prems" have "r = None" and "st' = st"
      by (simp_all add: frameLoop.simps [of env T scene n frame st])
    then show ?thesis by (auto intro: exI [of _ 0] handedOver_refl)
  next
    case True
    obtain r1 st1 where body: "frameBody env T scene n frame st = (r1, st1)"
      by (cases "frameBody env T scene n frame st")
    show ?thesis
    proof (cases r1)
      case (Some e)
      with body True "1.prems" have "r = Some e" and "st' = st1"
        by (simp_all add: frameLoop.simps [of env T scene n frame st])
      with frameBody_handed_thrown [of env T scene n frame st e st1] body Some
      show ?thesis by auto
    next
      case None
      with body True "1.prems" have rest: "frameLoop env T scene n (frame + 1) st1 = (r, st')"
        by (simp add: frameLoop.simps [of env T scene n frame st])
      from "1.IH" [OF True _ _ rest] body None
      obtain k where k: "handedOver k st1 st'" "r = None \<longrightarrow> frameIndex st' = frameIndex st1 + k"
        by auto
      from body None have "frameBody env T scene n frame st = (None, st1)" by simp
      then have one: "handedOver 1 st st1" by (rule frameBody_handed_ok)
      from frameBody_wrote [OF body] None have i1: "frameIndex st1 = frameIndex st + 1"
        by (simp add: wroteFrames_def)
      from handedOver_trans [OF one i1 k(1)] have "handedOver (1 + k) st st'" .
      with k(2) i1 show ?thesis by (intro exI [of _ "1 + k"]) auto
    qed
  qed
qed

lemma sceneLoop_handed:
  "sceneLoop env T ss st = (r, st') \<Longrightarrow>
     \<exists>k. handedOver k st st' \<and> (r = None \<longrightarrow> frameIndex st' = frameIndex st + k)"
proof (induction ss arbitrary: st)
  case Nil
  then show ?case by (auto intro: exI [of _ 0] handedOver_refl)
next
  case (Cons scene rest)
  obtain r1 st1 where inner: "frameLoop env T scene (framesForScene scene) 0 st = (r1, st1)"
    by (cases "frameLoop env T scene (framesForScene scene) 0 st")
  from frameLoop_handed [OF inner]
  obtain j where j: "handedOver j st st1" "r1 = None \<longrightarrow> frameIndex st1 = frameIndex st + j"
    by auto
  show ?case
  proof (cases r1)
    case (Some e)
    with inner Cons.prems have "r = Some e" and "st' = st1" by simp_all
    with j show ?thesis by auto
  next
    case None
    with inner Cons.prems have "sceneLoop env T rest st1 = (r, st')" by simp
    from Cons.IH [OF this]
    obtain k where k: "handedOver k st1 st'" "r = None \<longrightarrow> frameIndex st' = frameIndex st1 + k"
      by auto
    from j None have i1: "frameIndex st1 = frameIndex st + j" by simp
    from handedOver_trans [OF j(1) i1 k(1)] have "handedOver (j + k) st st'" .
    with k(2) i1 show ?thesis by (intro exI [of _ "j + k"]) auto
  qed
qed

lemma sceneLoop_append:
  "sceneLoop env T (xs @ ys) st =
     (case sceneLoop env T xs st of
        (Some e, st1) \<Rightarrow> (Some e, st1)
      | (None, st1) \<Rightarrow> sceneLoop env T ys st1)"
proof (induction xs arbitrary: st)
  case Nil
  show ?case by simp
next
  case (Cons x xs)
  obtain r1 st1 where inner: "frameLoop env T x (framesForScene x) 0 st = (r1, st1)"
    by (cases "frameLoop env T x (framesForScene x) 0 st")
  show ?case
  proof (cases r1)
    case (Some e)
    with inner show ?thesis by simp
  next
    case None
    with inner show ?thesis by (simp add: Cons.IH)
  qed
qed

declare String_nat.simps [simp del]
declare frameLoop.simps [simp del]

subsection \<open>Frame file names\<close>

lemma digit_cases:
  "d < 10 \<Longrightarrow> d = 0 \<or> d = 1 \<or> d = 2 \<or> d = 3 \<or> d = 4 \<or> d = 5 \<or> d = 6 \<or> d = 7 \<or> d = 8 \<or> d = (9::nat)"
  by arith

lemma digitValue_digitChar: "d < 10 \<Longrightarrow> digitValue (digitChar d) = d"
  using digit_cases [of d] by (auto simp: digitValue_def digitChar_def)

lemma decimalValue_snoc: "decimalValue (s @ [c]) = 10 * decimalValue s + digitValue c"
  by (simp add: decimalValue_def)

lemma decimalValue_String_nat: "decimalValue (String_nat n) = n"
proof (induction n rule: String_nat.induct)
  case (1 n)
  show ?case
  proof (cases "n < 10")
    case True
    then show ?thesis
      by (simp add: String_nat.simps [of n] decimalValue_def digitValue_digitChar)
  next
    case False
    with "1.IH" have "decimalValue (String_nat (n div 10)) = n div 10" by simp
    with False show ?thesis
      by (simp add: String_nat.simps [of n] decimalValue_snoc digitValue_digitChar)
  qed
qed

lemma foldl_zeros: "foldl (\<lambda>acc c. 10 * acc + digitValue c) 0 (replicate k (CHR ''0'')) = 0"
  by (induction k) (simp_all add: digitValue_def)

lemma decimalValue_padStart: "decimalValue (padStart s len (CHR ''0'')) = decimalValue s"
  by (simp add: decimalValue_def padStart_def foldl_zeros)

lemma length_String_nat: "0 < k \<Longrightarrow> n < 10 ^ k \<Longrightarrow> length (String_nat n) \<le> k"
proof (induction n arbitrary: k rule: String_nat.induct)
  case (1 n)
  show ?case
  proof (cases "n < 10")
    case True
    with "1.prems" show ?thesis by (simp add: String_nat.simps [of n])
  next
    case False
    with "1.prems" obtain k' where k': "k = Suc k'" by (cases k) auto
    with False "1.prems" have "0 < k'" by (cases k') auto
    moreover from k' "1.prems" have "n div 10 < 10 ^ k'"
      by (simp add: less_mult_imp_div_less mult.commute)
    ultimately have "length (String_nat (n div 10)) \<le> k'"
      using "1.IH" False by simp
    with False k' show ?thesis by (simp add: String_nat.simps [of n])
  qed
qed

lemma padStart_length: "length s \<le> len \<Longrightarrow> length (padStart s len c) = len"
  by (simp add: padStart_def)

lemma frameFilename_inj: "frameFilename i = frameFilename j \<Longrightarrow> i = j"
proof -
  assume "frameFilename i = frameFilename j"
  then have "padStart (String_nat i) 5 (CHR ''0'') = padStart (String_nat j) 5 (CHR ''0'')"
    by (simp add: frameFilename_def)
  then have "decimalValue (padStart (String_nat i) 5 (CHR ''0''))
             = decimalValue (padStart (String_nat j) 5 (CHR ''0''))"
    by simp
  then show "i = j" by (simp add: decimalValue_padStart decimalValue_String_nat)
qed

lemma frameFilename_0: "frameFilename 0 = ''frame_00000.png''"
  by (simp add: frameFilename_def padStart_def String_nat.simps [of 0] digitChar_def eval_nat_numeral)

lemma frameFilename_1: "frameFilename 1 = ''frame_00001.png''"
  unfolding frameFilename_def padStart_def String_nat.simps [of 1]
  by (simp add: digitChar_def eval_nat_numeral)

subsection \<open>Runs in which nothing is rejected\<close>

lemma renderSceneFrame_fst:
  "find (\<lambda>entry. gradient_id entry = gradientId scene) G = Some g \<Longrightarrow>
     fst (renderSceneFrame G m scene p ctx) = None"
  by (simp add: renderSceneFrame_def Let_def)

lemma frameBody_ok:
  assumes "find (\<lambda>entry. gradient_id entry = gradientId scene) (registry env) = Some g"
    and "atob_ok env" and "writeFile_ok env (frameFilename (frameIndex st))"
  shows "fst (frameBody env T scene n frame st) = None"
  unfolding frameBody_def Let_def canvasToUint8_def writeFile_def
  by (simp add: renderSceneFrame_resolved [OF assms(1)] assms(2,3))

lemma frameBody_missing:
  assumes "find (\<lambda>entry. gradient_id entry = gradientId scene) (registry env) = None"
  shows "frameBody env T scene n frame st = (Some (missingGradient (gradientId scene)), st)"
  unfolding frameBody_def Let_def
  by (simp add: renderSceneFrame_missing [OF assms])

lemma frameLoop_ok:
  assumes "find (\<lambda>entry. gradient_id entry = gradientId scene) (registry env) = Some g"
    and "atob_ok env" and "\<forall>name. writeFile_ok env name"
  shows "fst (frameLoop env T scene n frame st) = None"
  using assms
proof (induction env T scene n frame st rule: frameLoop.induct)
  case (1 env T scene n frame st)
  show ?case
  proof (cases "frame < n")
    case False
    then show ?thesis by (simp add: frameLoop.simps [of env T scene n frame st])
  next
    case True
    obtain r1 st1 where body: "frameBody env T scene n frame st = (r1, st1)"
      by (cases "frameBody env T scene n frame st")
    from frameBody_ok [OF "1.prems"(1,2), of st T n frame] "1.prems"(3) body
    have none: "r1 = None" by simp
    from "1.IH" [OF True _ _ "1.prems"] body none
    have "fst (frameLoop env T scene n (frame + 1) st1) = None" by simp
    with True body none show ?thesis
      by (simp add: frameLoop.simps [of env T scene n frame st])
  qed
qed

lemma framesForScene_pos: "0 < framesForScene scene"
  by (simp add: framesForScene_def)

lemma frameLoop_missing:
  assumes "find (\<lambda>entry. gradient_id entry = gradientId scene) (registry env) = None"
    and "0 < n"
  shows "frameLoop env T scene n 0 st = (Some (missingGradient (gradientId scene)), st)"
  using assms(2)
  by (simp add: frameLoop.simps [of env T scene n 0 st] frameBody_missing [OF assms(1)])

lemma sceneLoop_ok:
  assumes "\<forall>scene\<in>set ss. find (\<lambda>entry. gradient_id entry = gradientId scene) (registry env) \<noteq> None"
    and "atob_ok env" and "\<forall>name. writeFile_ok env name"
  shows "fst (sceneLoop env T ss st) = None"
  using assms(1)
proof (induction ss arbitrary: st)
  case Nil
  then show ?case by simp
next
  case (Cons scene rest)
  then obtain g where "find (\<lambda>entry. gradient_id entry = gradientId scene) (registry env) = Some g"
    by auto
  from frameLoop_ok [OF this assms(2,3), of T "framesForScene scene" 0 st]
  obtain st1 where "frameLoop env T scene (framesForScene scene) 0 st = (None, st1)"
    by (cases "frameLoop env T scene (framesForScene scene) 0 st") auto
  with Cons show ?case by simp
qed

lemma sceneLoop_missing:
  assumes "scene \<in> set ss"
    and "find (\<lambda>entry. gradient_id entry = gradientId scene) (registry env) = None"
  shows "fst (sceneLoop env T ss st) \<noteq> None"
  using assms(1)
proof (induction ss arbitrary: st)
  case Nil
  then show ?case by simp
next
  case (Cons s rest)
  obtain r1 st1 where inner: "frameLoop env T s (framesForScene s) 0 st = (r1, st1)"
    by (cases "frameLoop env T s (framesForScene s) 0 st")
  show ?case
  proof (cases r1)
    case (Some e)
    with inner show ?thesis by simp
  next
    case None
    have "s \<noteq> scene"
    proof
      assume "s = scene"
      with frameLoop_missing [OF assms(2) framesForScene_pos] inner None
      show False by simp
    qed
    with Cons.prems have "scene \<in> set rest" by simp
    from Cons.IH [OF this] inner None show ?thesis by simp
  qed
qed

subsection \<open>What the other steps of an attempt touch\<close>

lemma framesProgress_onStage:
  "framesProgress (onStage stage p st) =
     (if stage = Frames then framesProgress st @ [p] else framesProgress st)"
  by (simp add: framesProgress_def onStage_def)

lemma wroteFrames_progress:
  "wroteFrames T k st st' \<Longrightarrow>
     framesProgress st' =
       framesProgress st @ map (\<lambda>j. real j / real T) [frameIndex st + 1..<frameIndex st + k + 1]"
  by (simp add: wroteFrames_def framesProgress_def filter_map o_def)

lemma loadEncoder_fields:
  "loadEncoder env st = (r, st1) \<Longrightarrow>
     framesProgress st1 = framesProgress st \<and> storage st1 = storage st
     \<and> deleteCalls st1 = deleteCalls st \<and> writtenFiles st1 = writtenFiles st
     \<and> frameIndex st1 = frameIndex st"
  by (auto simp: loadEncoder_def Let_def onStage_def framesProgress_def split: if_splits)

lemma deleteFile_fields:
  "deleteFile env name st = (r, st1) \<Longrightarrow>
     stageLog st1 = stageLog st \<and> writtenFiles st1 = writtenFiles st
     \<and> frameIndex st1 = frameIndex st \<and> deleteCalls st1 = deleteCalls st @ [name]"
  by (auto simp: deleteFile_def Let_def split: if_splits)

lemma deleteFile_dom:
  "deleteFile env name st = (r, st1) \<Longrightarrow> dom (storage st1) \<subseteq> dom (storage st)"
  by (auto simp: deleteFile_def Let_def split: if_splits)

lemma deleteFile_dom_ok:
  "deleteFile env name st = (r, st1) \<Longrightarrow> deleteFile_ok env name \<Longrightarrow>
     dom (storage st1) = dom (storage st) - {name}"
  by (auto simp: deleteFile_def Let_def split: if_splits)

lemma cleanupFiles_step:
  "deleteFile env f st = (r, st1) \<Longrightarrow> cleanupFiles env (f # files) st = cleanupFiles env files st1"
  by (cases r) simp_all

lemma cleanupFiles_fields:
  "stageLog (cleanupFiles env files st) = stageLog st
   \<and> writtenFiles (cleanupFiles env files st) = writtenFiles st
   \<and> frameIndex (cleanupFiles env files st) = frameIndex st
   \<and> deleteCalls (cleanupFiles env files st) = deleteCalls st @ files"
proof (induction files arbitrary: st)
  case Nil
  then show ?case by simp
next
  case (Cons f files)
  obtain r st1 where d: "deleteFile env f st = (r, st1)"
    by (cases "deleteFile env f st")
  from deleteFile_fields [OF d] Cons.IH [of st1] show ?case
    unfolding cleanupFiles_step [OF d] by simp
qed

lemma cleanupFiles_dom:
  "dom (storage (cleanupFiles env files st)) \<subseteq> dom (storage st)"
proof (induction files arbitrary: st)
  case Nil
  then show ?case by simp
next
  case (Cons f files)
  obtain r st1 where d: "deleteFile env f st = (r, st1)"
    by (cases "deleteFile env f st")
  from deleteFile_dom [OF d] Cons.IH [of st1] show ?case
    unfolding cleanupFiles_step [OF d] by (rule order_trans [rotated])
qed

lemma cleanupFiles_dom_ok:
  assumes "\<forall>name. deleteFile_ok env name"
  shows "dom (storage (cleanupFiles env files st)) = dom (storage st) - set files"
proof (induction files arbitrary: st)
  case Nil
  then show ?case by simp
next
  case (Cons f files)
  obtain r st1 where d: "deleteFile env f st = (r, st1)"
    by (cases "deleteFile env f st")
  from assms have "deleteFile_ok env f" by simp
  from deleteFile_dom_ok [OF d this] Cons.IH [of st1] show ?case
    unfolding cleanupFiles_step [OF d] by auto
qed

lemma cleanupFfmpeg_step:
  "deleteFile env ''output.mp4'' (cleanupFiles env files st) = (r, st2) \<Longrightarrow>
     cleanupFfmpeg env files st = st2"
  by (cases r) (simp_all add: cleanupFfmpeg_def Let_def)

lemma cleanupFfmpeg_fields:
  "stageLog (cleanupFfmpeg env files st) = stageLog st
   \<and> writtenFiles (cleanupFfmpeg env files st) = writtenFiles st
   \<and> frameIndex (cleanupFfmpeg env files st) = frameIndex st
   \<and> deleteCalls (cleanupFfmpeg env files st) = deleteCalls st @ files @ [''output.mp4'']"
proof -
  obtain r st2 where d: "deleteFile env ''output.mp4'' (cleanupFiles env files st) = (r, st2)"
    by (cases "deleteFile env ''output.mp4'' (cleanupFiles env files st)")
  from deleteFile_fields [OF d] cleanupFiles_fields [of env files st] show ?thesis
    unfolding cleanupFfmpeg_step [OF d] by simp
qed

lemma cleanupFfmpeg_dom_ok:
  assumes "\<forall>name. deleteFile_ok env name"
  shows "dom (storage (cleanupFfmpeg env files st)) = dom (storage st) - set files - {''output.mp4''}"
proof -
  obtain r st2 where d: "deleteFile env ''output.mp4'' (cleanupFiles env files st) = (r, st2)"
    by (cases "deleteFile env ''output.mp4'' (cleanupFiles env files st)")
  from assms have "deleteFile_ok env ''output.mp4''" by simp
  from deleteFile_dom_ok [OF d this] cleanupFiles_dom_ok [OF assms, of files st] show ?thesis
    unfolding cleanupFfmpeg_step [OF d] by simp
qed

lemma tryMux_fields:
  "tryMux env st = (thrown, data, st1) \<Longrightarrow>
     framesProgress st1 = framesProgress st \<and> writtenFiles st1 = writtenFiles st
     \<and> frameIndex st1 = frameIndex st \<and> deleteCalls st1 = deleteCalls st
     \<and> dom (storage st1) \<subseteq> insert ''output.mp4'' (dom (storage st))
     \<and> (thrown = None \<longleftrightarrow> data \<noteq> None)"
  unfolding tryMux_def exec_def readFile_def Let_def
  by (auto simp: onStage_def framesProgress_def
           split: prod.splits option.splits sum.splits ExecOutcome.splits FileData.splits if_splits)

lemma loadEncoder_writeCalls:
  "loadEncoder env st = (r, st1) \<Longrightarrow> writeCalls st1 = writeCalls st"
  by (auto simp: loadEncoder_def Let_def onStage_def split: if_splits)

lemma deleteFile_writeCalls:
  "deleteFile env name st = (r, st1) \<Longrightarrow> writeCalls st1 = writeCalls st"
  by (auto simp: deleteFile_def Let_def split: if_splits)

lemma cleanupFiles_writeCalls: "writeCalls (cleanupFiles env files st) = writeCalls st"
proof (induction files arbitrary: st)
  case Nil
  then show ?case by simp
next
  case (Cons f files)
  obtain r st1 where d: "deleteFile env f st = (r, st1)"
    by (cases "deleteFile env f st")
  from deleteFile_writeCalls [OF d] Cons.IH [of st1] show ?case
    unfolding cleanupFiles_step [OF d] by simp
qed

lemma cleanupFfmpeg_writeCalls: "writeCalls (cleanupFfmpeg env files st) = writeCalls st"
proof -
  obtain r st2 where d: "deleteFile env ''output.mp4'' (cleanupFiles env files st) = (r, st2)"
    by (cases "deleteFile env ''output.mp4'' (cleanupFiles env files st)")
  from deleteFile_writeCalls [OF d] cleanupFiles_writeCalls [of env files st] show ?thesis
    unfolding cleanupFfmpeg_step [OF d] by simp
qed

lemma tryMux_writeCalls:
  "tryMux env st = (thrown, data, st1) \<Longrightarrow> writeCalls st1 = writeCalls st"
  unfolding tryMux_def exec_def readFile_def Let_def
  by (auto simp: onStage_def
           split: prod.splits option.splits sum.splits ExecOutcome.splits FileData.splits if_splits)

subsection \<open>A whole attempt\<close>

lemma framesProgress_stageLog: "stageLog a = stageLog b \<Longrightarrow> framesProgress a = framesProgress b"
  by (simp add: framesProgress_def)

lemma onStage_fields:
  "writtenFiles (onStage stage p st) = writtenFiles st"
  "frameIndex (onStage stage p st) = frameIndex st"
  "storage (onStage stage p st) = storage st"
  "deleteCalls (onStage stage p st) = deleteCalls st"
  by (simp_all add: onStage_def)

lemma synthesizeVideo_after_loop:
  assumes "ss \<noteq> []" and "loadEncoder env st = (None, st1)" and "getContext_ok env"
    and "sceneLoop env (totalFrames ss) ss
           (st1\<lparr>canvasContext := freshContext, writtenFiles := [], frameIndex := 0\<rparr>) = (None, st3)"
    and "tryMux env (onStage Muxing (1 / 10) st3) = (thrown, data, st5)"
  shows "synthesizeVideo env ss st =
           ((case thrown of
               Some e \<Rightarrow> Inl e
             | None \<Rightarrow> (case data of
                          None \<Rightarrow> Inl (Error ''Failed to read rendered video output.'')
                        | Some bytes \<Rightarrow> Inr bytes)),
            cleanupFfmpeg env (writtenFiles st5) st5)"
  using assms by (simp add: synthesizeVideo_def Let_def split: option.splits)

lemma synthesizeVideo_run:
  assumes run: "synthesizeVideo env ss (startAttempt files) = (r, st')"
  shows "frameIndex st' \<le> sum_list (map framesForScene ss)
       \<and> writtenFiles st' = map frameFilename [0..<frameIndex st']
       \<and> framesProgress st' = map (\<lambda>j. real j / real (totalFrames ss)) [1..<frameIndex st' + 1]
       \<and> ((\<exists>bytes. r = Inr bytes) \<longrightarrow> frameIndex st' = sum_list (map framesForScene ss))"
proof (cases "ss = []")
  case True
  with run show ?thesis
    by (auto simp: synthesizeVideo_def startAttempt_def framesProgress_def)
next
  case False
  obtain r1 st1 where load: "loadEncoder env (startAttempt files) = (r1, st1)"
    by (cases "loadEncoder env (startAttempt files)")
  from loadEncoder_fields [OF load]
  have st1: "framesProgress st1 = []" "writtenFiles st1 = []" "frameIndex st1 = 0"
    by (simp_all add: startAttempt_def framesProgress_def)
  show ?thesis
  proof (cases r1)
    case (Some e)
    with run load False have "st' = st1" "r = Inl e" by (simp_all add: synthesizeVideo_def)
    with st1 show ?thesis by simp
  next
    case None
    note r1 = None
    show ?thesis
    proof (cases "getContext_ok env")
      case False
      with run load r1 \<open>ss \<noteq> []\<close> have "st' = st1" "\<exists>e. r = Inl e"
        by (auto simp: synthesizeVideo_def)
      with st1 show ?thesis by auto
    next
      case True
      let ?st2 = "st1\<lparr>canvasContext := freshContext, writtenFiles := [], frameIndex := 0\<rparr>"
      obtain r3 st3 where loop: "sceneLoop env (totalFrames ss) ss ?st2 = (r3, st3)"
        by (cases "sceneLoop env (totalFrames ss) ss ?st2")
      from sceneLoop_wrote [OF loop] obtain k where
        k: "k \<le> sum_list (map framesForScene ss)" "wroteFrames (totalFrames ss) k ?st2 st3"
          "r3 = None \<longrightarrow> k = sum_list (map framesForScene ss)"
        by auto
      have p2: "framesProgress ?st2 = []" using st1 by (simp add: framesProgress_def)
      from k(2) have st3: "frameIndex st3 = k" "writtenFiles st3 = map frameFilename [0..<k]"
        by (simp_all add: wroteFrames_def)
      from wroteFrames_progress [OF k(2)] p2
      have p3: "framesProgress st3 = map (\<lambda>j. real j / real (totalFrames ss)) [1..<k + 1]"
        by simp
      show ?thesis
      proof (cases r3)
        case (Some e)
        with run load r1 True loop \<open>ss \<noteq> []\<close> have "st' = st3" "r = Inl e"
          by (simp_all add: synthesizeVideo_def)
        with st3 p3 k(1) show ?thesis by simp
      next
        case None
        obtain thrown data st5 where
          mux: "tryMux env (onStage Muxing (1 / 10) st3) = (thrown, data, st5)"
          by (cases "tryMux env (onStage Muxing (1 / 10) st3)") auto
        from loop None have loop': "sceneLoop env (totalFrames ss) ss ?st2 = (None, st3)" by simp
        from load r1 have load': "loadEncoder env (startAttempt files) = (None, st1)" by simp
        from synthesizeVideo_after_loop [OF \<open>ss \<noteq> []\<close> load' True loop' mux] run
        have st': "st' = cleanupFfmpeg env (writtenFiles st5) st5" by simp
        from tryMux_fields [OF mux]
        have st5: "framesProgress st5 = framesProgress st3" "writtenFiles st5 = writtenFiles st3"
          "frameIndex st5 = frameIndex st3"
          by (simp_all add: framesProgress_onStage onStage_fields)
        from cleanupFfmpeg_fields [of env "writtenFiles st5" st5]
        have st6: "framesProgress st' = framesProgress st5" "writtenFiles st' = writtenFiles st5"
          "frameIndex st' = frameIndex st5"
          unfolding st' by (simp_all add: framesProgress_def)
        have a: "frameIndex st' = k" by (simp only: st6 st5 st3)
        have b: "writtenFiles st' = map frameFilename [0..<k]" by (simp only: st6 st5 st3)
        have c: "framesProgress st' = map (\<lambda>j. real j / real (totalFrames ss)) [1..<k + 1]"
          by (simp only: st6 st5 p3)
        from None k(3) have d: "k = sum_list (map framesForScene ss)" by simp
        show ?thesis unfolding a using b c d by simp
      qed
    qed
  qed
qed

lemma synthesizeVideo_calls:
  assumes run: "synthesizeVideo env ss (startAttempt files) = (r, st')"
  shows "\<exists>n. writeCalls st' = map frameFilename [0..<n]
             \<and> frameIndex st' \<le> n \<and> n \<le> frameIndex st' + 1
             \<and> ((\<exists>bytes. r = Inr bytes) \<longrightarrow> n = frameIndex st')"
proof (cases "ss = []")
  case True
  with run show ?thesis
    by (auto simp: synthesizeVideo_def startAttempt_def intro: exI [of _ 0])
next
  case False
  obtain r1 st1 where load: "loadEncoder env (startAttempt files) = (r1, st1)"
    by (cases "loadEncoder env (startAttempt files)")
  from loadEncoder_fields [OF load] loadEncoder_writeCalls [OF load]
  have st1: "writeCalls st1 = []" "frameIndex st1 = 0"
    by (simp_all add: startAttempt_def)
  show ?thesis
  proof (cases r1)
    case (Some e)
    with run load False have "st' = st1" "r = Inl e" by (simp_all add: synthesizeVideo_def)
    with st1 show ?thesis by (auto intro: exI [of _ 0])
  next
    case None
    note r1 = None
    show ?thesis
    proof (cases "getContext_ok env")
      case False
      with run load r1 \<open>ss \<noteq> []\<close> have "st' = st1" "\<exists>e. r = Inl e"
        by (auto simp: synthesizeVideo_def)
      with st1 show ?thesis by (auto intro: exI [of _ 0])
    next
      case True
      let ?st2 = "st1\<lparr>canvasContext := freshContext, writtenFiles := [], frameIndex := 0\<rparr>"
      obtain r3 st3 where loop: "sceneLoop env (totalFrames ss) ss ?st2 = (r3, st3)"
        by (cases "sceneLoop env (totalFrames ss) ss ?st2")
      from sceneLoop_handed [OF loop] obtain k where
        k: "handedOver k ?st2 st3" "r3 = None \<longrightarrow> frameIndex st3 = frameIndex ?st2 + k"
        by auto
      from k(1) st1 have st3: "writeCalls st3 = map frameFilename [0..<k]"
        "frameIndex st3 \<le> k" "k \<le> frameIndex st3 + 1"
        by (simp_all add: handedOver_def)
      show ?thesis
      proof (cases r3)
        case (Some e)
        with run load r1 True loop \<open>ss \<noteq> []\<close> have "st' = st3" "r = Inl e"
          by (simp_all add: synthesizeVideo_def)
        with st3 show ?thesis by (intro exI [of _ k]) simp
      next
        case None
        obtain thrown data st5 where
          mux: "tryMux env (onStage Muxing (1 / 10) st3) = (thrown, data, st5)"
          by (cases "tryMux env (onStage Muxing (1 / 10) st3)") auto
        from loop None have loop': "sceneLoop env (totalFrames ss) ss ?st2 = (None, st3)" by simp
        from load r1 have load': "loadEncoder env (startAttempt files) = (None, st1)" by simp
        from synthesizeVideo_after_loop [OF \<open>ss \<noteq> []\<close> load' True loop' mux] run
        have st': "st' = cleanupFfmpeg env (writtenFiles st5) st5" by simp
        from tryMux_fields [OF mux] tryMux_writeCalls [OF mux]
        have st5: "writeCalls st5 = writeCalls st3" "frameIndex st5 = frameIndex st3"
          by (simp_all add: onStage_fields onStage_def)
        from cleanupFfmpeg_fields [of env "writtenFiles st5" st5]
          cleanupFfmpeg_writeCalls [of env "writtenFiles st5" st5]
        have st6: "writeCalls st' = writeCalls st5" "frameIndex st' = frameIndex st5"
          unfolding st' by simp_all
        from None k(2) have "frameIndex st3 = k" by simp
        then have a: "frameIndex st' = k" by (simp only: st6 st5)
        have b: "writeCalls st' = map frameFilename [0..<k]" by (simp only: st6 st5 st3)
        from a b show ?thesis by (intro exI [of _ k]) simp
      qed
    qed
  qed
qed

lemma tryMux_resolves:
  assumes "exec_outcome env (storage st) = ExecResolves (Uint8Array bytes)"
    and "readFile_ok env ''output.mp4''"
  shows "\<exists>st1. tryMux env st = (None, Some bytes, st1)"
  using assms by (simp add: tryMux_def exec_def readFile_def Let_def onStage_def)

lemma synthesizeVideo_success:
  assumes "ss \<noteq> []" and "getFFmpeg_ok env" and "getContext_ok env" and "atob_ok env"
    and "\<forall>scene\<in>set ss. find (\<lambda>entry. gradient_id entry = gradientId scene) (registry env) \<noteq> None"
    and "\<forall>name. writeFile_ok env name"
    and "\<forall>stored. exec_outcome env stored = ExecResolves (Uint8Array bytes)"
    and "readFile_ok env ''output.mp4''"
  shows "\<exists>st'. synthesizeVideo env ss st = (Inr bytes, st')"
proof -
  obtain st1 where load: "loadEncoder env st = (None, st1)"
    using assms(2) by (simp add: loadEncoder_def Let_def)
  let ?st2 = "st1\<lparr>canvasContext := freshContext, writtenFiles := [], frameIndex := 0\<rparr>"
  from sceneLoop_ok [OF assms(5,4,6), of "totalFrames ss" ?st2]
  obtain st3 where loop: "sceneLoop env (totalFrames ss) ss ?st2 = (None, st3)"
    by (cases "sceneLoop env (totalFrames ss) ss ?st2") auto
  from assms(7) have "exec_outcome env (storage (onStage Muxing (1 / 10) st3)) = ExecResolves (Uint8Array bytes)"
    by simp
  from tryMux_resolves [OF this assms(8)]
  obtain st5 where mux: "tryMux env (onStage Muxing (1 / 10) st3) = (None, Some bytes, st5)"
    by blast
  from synthesizeVideo_after_loop [OF assms(1) load assms(3) loop mux]
  show ?thesis by simp
qed

lemma testEnv_resolves:
  "\<forall>scene\<in>set (map testScene ds).
      find (\<lambda>entry. gradient_id entry = gradientId scene) (registry (testEnv accepts outcome)) \<noteq> None"
  by (simp add: testEnv_def testScene_def aurora_def)

subsection \<open>The claims about an export attempt\<close>

lemma framesForScene_int:
  "int (framesForScene scene) = max 1 (Math_round (double_times (duration scene) 24))"
  by (simp add: framesForScene_def FPS_def)

lemma framesForScene_nearest:
  assumes "1 / 2 \<le> double_times (duration scene) 24"
  shows "real (framesForScene scene) - 1 / 2 \<le> double_times (duration scene) 24
       \<and> double_times (duration scene) 24 < real (framesForScene scene) + 1 / 2"
proof -
  let ?x = "double_times (duration scene) 24"
  let ?n = "Math_round ?x"
  have n: "real_of_int ?n \<le> ?x + 1 / 2" "?x + 1 / 2 < real_of_int ?n + 1"
    unfolding Math_round_def by linarith+
  from assms have "1 \<le> ?x + 1 / 2" by simp
  then have "1 \<le> ?n" unfolding Math_round_def by (simp add: le_floor_iff)
  then have "real (framesForScene scene) = real_of_int ?n"
    by (simp add: framesForScene_def FPS_def)
  with n show ?thesis by simp
qed

lemma framesForScene_at:
  "duration scene = d \<Longrightarrow> framesForScene scene = nat (max 1 (Math_round (double_times d 24)))"
  by (simp add: framesForScene_def FPS_def)

lemma framesForScene_48: "duration scene = 2 \<Longrightarrow> framesForScene scene = 48"
  by (simp only: framesForScene_at double_values) (simp add: Math_round_def)

lemma framesForScene_192: "duration scene = 8 \<Longrightarrow> framesForScene scene = 192"
  by (simp only: framesForScene_at double_values) (simp add: Math_round_def)

lemma framesForScene_84: "duration scene = 7 / 2 \<Longrightarrow> framesForScene scene = 84"
  by (simp only: framesForScene_at double_values) (simp add: Math_round_def)

lemma framesForScene_202: "duration scene = 101 / 50 \<Longrightarrow> framesForScene scene = 48"
  by (simp only: framesForScene_at double_values) (simp add: Math_round_def)

lemma framesForScene_203: "duration scene = 203 / 100 \<Longrightarrow> framesForScene scene = 49"
  by (simp only: framesForScene_at double_values) (simp add: Math_round_def)

lemma framesForScene_ties:
  "duration scene = 33 / 16 \<Longrightarrow> framesForScene scene = 50"
  "duration scene = 35 / 16 \<Longrightarrow> framesForScene scene = 53"
  "duration scene = 65 / 32 \<Longrightarrow> framesForScene scene = 49"
  "duration scene = 129 / 64 \<Longrightarrow> framesForScene scene = 48"
  by (simp_all only: framesForScene_at double_values) (simp_all add: Math_round_def)

text \<open>
  The double \<open>2.1041666666666665\<close>: its exact product with 24 is below \<open>50.5\<close> by less
  than half a unit in the last place, the double product is \<open>50.5\<close>, and
  \<open>Math.round\<close> gives 51 frames.
\<close>

lemma framesForScene_double_product:
  assumes "duration scene = 4738162107962709 / 2251799813685248"
  shows "framesForScene scene = 51"
    and "max 1 (Math_round (duration scene * 24)) = 50"
proof -
  show "framesForScene scene = 51"
    by (simp only: framesForScene_at [OF assms] double_values) (simp add: Math_round_def)
  show "max 1 (Math_round (duration scene * 24)) = 50"
    unfolding assms by (simp add: Math_round_def)
qed

lemma scenarioA:
  "map framesForScene (buildInitialScenes i1 i2 i3) = [96, 84, 72]"
  "totalDurationForScenes (buildInitialScenes i1 i2 i3) = 21 / 2"
  "totalDurationDouble (buildInitialScenes i1 i2 i3) = 21 / 2"
  "totalFrames (buildInitialScenes i1 i2 i3) = 252"
  by (simp_all add: buildInitialScenes_def framesForScene_def totalFrames_def
        totalDurationForScenes_def totalDurationDouble_def FPS_def double_values Math_round_def)

text \<open>
  Claim C3.  The number of frames rendered for a scene is
  \<open>max(1, round(duration * 24))\<close>, the product being the double product of the code
  and \<open>round\<close> the nearest integer with ties upwards.  Wherever the scene stands
  in the list, an outer loop that is not cut short by a throw passes from the
  state after the scenes before it to the state after it by exactly that many
  frames: the frame index advances by that number, and that many files, with the
  next names in order, are handed to the encoder and stored.  A successful export
  has handed over as many files as the counts of its scenes add up to.  Duration 2
  gives 48 frames, duration 8 gives 192; durations 2.0625, 2.1875, 2.03125 and
  2.015625 give 50, 53, 49 and 48; the double \<open>2.1041666666666665\<close>, whose exact
  product with 24 lies below \<open>50.5\<close> and whose double product is \<open>50.5\<close>, gives 51;
  the scenes of durations 4, 3.5, 3 give 96, 84, 72 frames, total duration 10.5
  and 252 frames in total.
\<close>

theorem frames_per_scene:
  "int (framesForScene scene) = max 1 (Math_round (double_times (duration scene) 24))
   \<and> (1 / 2 \<le> double_times (duration scene) 24 \<longrightarrow>
        real (framesForScene scene) - 1 / 2 \<le> double_times (duration scene) 24
        \<and> double_times (duration scene) 24 < real (framesForScene scene) + 1 / 2)
   \<and> (sceneLoop env T (before @ scene # after) st = (None, st') \<longrightarrow>
        (\<exists>mid mid'.
            sceneLoop env T before st = (None, mid)
          \<and> sceneLoop env T (before @ [scene]) st = (None, mid')
          \<and> sceneLoop env T after mid' = (None, st')
          \<and> frameIndex mid' = frameIndex mid + framesForScene scene
          \<and> writeCalls mid' = writeCalls mid
                @ map frameFilename [frameIndex mid..<frameIndex mid + framesForScene scene]
          \<and> dom (storage mid') = dom (storage mid)
                \<union> frameFilename ` {frameIndex mid..<frameIndex mid + framesForScene scene}))
   \<and> (synthesizeVideo env ss (startAttempt files) = (Inr bytes, done) \<longrightarrow>
        length (writeCalls done) = sum_list (map framesForScene ss)
        \<and> length (writtenFiles done) = sum_list (map framesForScene ss))
   \<and> (duration scene = 2 \<longrightarrow> framesForScene scene = 48)
   \<and> (duration scene = 8 \<longrightarrow> framesForScene scene = 192)
   \<and> (duration scene = 33 / 16 \<longrightarrow> framesForScene scene = 50)
   \<and> (duration scene = 35 / 16 \<longrightarrow> framesForScene scene = 53)
   \<and> (duration scene = 65 / 32 \<longrightarrow> framesForScene scene = 49)
   \<and> (duration scene = 129 / 64 \<longrightarrow> framesForScene scene = 48)
   \<and> (duration scene = 4738162107962709 / 2251799813685248 \<longrightarrow> framesForScene scene = 51)
   \<and> map framesForScene (buildInitialScenes i1 i2 i3) = [96, 84, 72]
   \<and> totalDurationForScenes (buildInitialScenes i1 i2 i3) = 21 / 2
   \<and> totalDurationDouble (buildInitialScenes i1 i2 i3) = 21 / 2
   \<and> totalFrames (buildInitialScenes i1 i2 i3) = 252
   \<and> sum_list (map framesForScene (buildInitialScenes i1 i2 i3)) = 252"
proof (intro conjI impI)
  show "int (framesForScene scene) = max 1 (Math_round (double_times (duration scene) 24))"
    by (rule framesForScene_int)
next
  assume h: "1 / 2 \<le> double_times (duration scene) 24"
  from framesForScene_nearest [OF h]
  show "real (framesForScene scene) - 1 / 2 \<le> double_times (duration scene) 24"
    and "double_times (duration scene) 24 < real (framesForScene scene) + 1 / 2"
    by simp_all
next
  assume loop: "sceneLoop env T (before @ scene # after) st = (None, st')"
  obtain r0 mid where pre: "sceneLoop env T before st = (r0, mid)"
    by (cases "sceneLoop env T before st")
  have r0: "r0 = None"
  proof (cases r0)
    case (Some e)
    with loop pre show ?thesis by (simp add: sceneLoop_append del: sceneLoop.simps)
  qed simp
  from loop pre r0 have tail: "sceneLoop env T (scene # after) mid = (None, st')"
    by (simp add: sceneLoop_append del: sceneLoop.simps)
  obtain r1 mid' where one: "sceneLoop env T [scene] mid = (r1, mid')"
    by (cases "sceneLoop env T [scene] mid")
  have upto: "sceneLoop env T (before @ [scene]) st = (r1, mid')"
    using pre r0 one by (simp add: sceneLoop_append del: sceneLoop.simps)
  have step: "sceneLoop env T (scene # after) mid =
      (case (r1, mid') of (Some e, s) \<Rightarrow> (Some e, s) | (None, s) \<Rightarrow> sceneLoop env T after s)"
    using sceneLoop_append [of env T "[scene]" after mid] one
    by (simp del: sceneLoop.simps)
  have r1: "r1 = None"
  proof (cases r1)
    case (Some e)
    with tail step show ?thesis by (simp del: sceneLoop.simps)
  qed simp
  from tail step r1 have post: "sceneLoop env T after mid' = (None, st')"
    by (simp del: sceneLoop.simps)
  from sceneLoop_wrote [OF one] r1
  have w: "wroteFrames T (framesForScene scene) mid mid'" by auto
  from sceneLoop_handed [OF one] r1 obtain k where
    k: "handedOver k mid mid'" "frameIndex mid' = frameIndex mid + k" by auto
  from w k(2) have "k = framesForScene scene" by (simp add: wroteFrames_def)
  with k(1) have calls: "writeCalls mid' = writeCalls mid
      @ map frameFilename [frameIndex mid..<frameIndex mid + framesForScene scene]"
    by (simp add: handedOver_def)
  from w have "frameIndex mid' = frameIndex mid + framesForScene scene"
    and "dom (storage mid') = dom (storage mid)
          \<union> frameFilename ` {frameIndex mid..<frameIndex mid + framesForScene scene}"
    by (simp_all add: wroteFrames_def)
  moreover from pre r0 have "sceneLoop env T before st = (None, mid)" by simp
  moreover from upto r1 have "sceneLoop env T (before @ [scene]) st = (None, mid')" by simp
  moreover note post calls
  ultimately
  show "\<exists>mid mid'.
            sceneLoop env T before st = (None, mid)
          \<and> sceneLoop env T (before @ [scene]) st = (None, mid')
          \<and> sceneLoop env T after mid' = (None, st')
          \<and> frameIndex mid' = frameIndex mid + framesForScene scene
          \<and> writeCalls mid' = writeCalls mid
                @ map frameFilename [frameIndex mid..<frameIndex mid + framesForScene scene]
          \<and> dom (storage mid') = dom (storage mid)
                \<union> frameFilename ` {frameIndex mid..<frameIndex mid + framesForScene scene}"
    by blast
next
  assume run: "synthesizeVideo env ss (startAttempt files) = (Inr bytes, done)"
  from synthesizeVideo_run [OF run]
  have i: "frameIndex done = sum_list (map framesForScene ss)"
    and w: "writtenFiles done = map frameFilename [0..<frameIndex done]"
    by auto
  from synthesizeVideo_calls [OF run] have "writeCalls done = map frameFilename [0..<frameIndex done]"
    by auto
  with i show "length (writeCalls done) = sum_list (map framesForScene ss)" by simp
  from w i show "length (writtenFiles done) = sum_list (map framesForScene ss)" by simp
next
  assume "duration scene = 2"
  then show "framesForScene scene = 48" by (rule framesForScene_48)
next
  assume "duration scene = 8"
  then show "framesForScene scene = 192" by (rule framesForScene_192)
next
  assume "duration scene = 33 / 16"
  then show "framesForScene scene = 50" by (rule framesForScene_ties)
next
  assume "duration scene = 35 / 16"
  then show "framesForScene scene = 53" by (rule framesForScene_ties)
next
  assume "duration scene = 65 / 32"
  then show "framesForScene scene = 49" by (rule framesForScene_ties)
next
  assume "duration scene = 129 / 64"
  then show "framesForScene scene = 48" by (rule framesForScene_ties)
next
  assume "duration scene = 4738162107962709 / 2251799813685248"
  then show "framesForScene scene = 51" by (rule framesForScene_double_product)
next
  show "map framesForScene (buildInitialScenes i1 i2 i3) = [96, 84, 72]"
    by (rule scenarioA)
  then show "sum_list (map framesForScene (buildInitialScenes i1 i2 i3)) = 252" by simp
  show "totalDurationForScenes (buildInitialScenes i1 i2 i3) = 21 / 2"
    by (rule scenarioA)
  show "totalDurationDouble (buildInitialScenes i1 i2 i3) = 21 / 2"
    by (rule scenarioA)
  show "totalFrames (buildInitialScenes i1 i2 i3) = 252"
    by (rule scenarioA)
qed

lemma testEnv_fields:
  "registry (testEnv accepts outcome) = [aurora]"
  "getFFmpeg_ok (testEnv accepts outcome)"
  "getContext_ok (testEnv accepts outcome)"
  "atob_ok (testEnv accepts outcome)"
  "writeFile_ok (testEnv accepts outcome) = accepts"
  "exec_outcome (testEnv accepts outcome) stored = outcome"
  "readFile_ok (testEnv accepts outcome) name"
  "deleteFile_ok (testEnv accepts outcome) name"
  by (simp_all add: testEnv_def)

lemma testScene_resolves:
  "find (\<lambda>entry. gradient_id entry = gradientId (testScene d)) (registry (testEnv accepts outcome))
     = Some aurora"
  by (simp add: testEnv_def testScene_def aurora_def)

theorem frames_per_scene_witness:
  "\<exists>st' mid mid'.
      sceneLoop (testEnv (\<lambda>name. True) (ExecResolves (Uint8Array [7]))) 252
        ([testScene 2] @ testScene (7 / 2) # [testScene 8]) (startAttempt Map.empty) = (None, st')
    \<and> sceneLoop (testEnv (\<lambda>name. True) (ExecResolves (Uint8Array [7]))) 252
        [testScene 2] (startAttempt Map.empty) = (None, mid)
    \<and> sceneLoop (testEnv (\<lambda>name. True) (ExecResolves (Uint8Array [7]))) 252
        ([testScene 2] @ [testScene (7 / 2)]) (startAttempt Map.empty) = (None, mid')
    \<and> frameIndex mid = 48
    \<and> frameIndex mid' = 48 + 84
    \<and> writeCalls mid' = writeCalls mid @ map frameFilename [48..<48 + 84]
    \<and> framesForScene (testScene (7 / 2)) = 84"
proof -
  let ?E = "testEnv (\<lambda>name. True) (ExecResolves (Uint8Array [7]))"
  let ?ss = "[testScene 2] @ testScene (7 / 2) # [testScene 8]"
  let ?st = "startAttempt Map.empty"
  have "fst (sceneLoop ?E 252 ?ss ?st) = None"
    by (rule sceneLoop_ok) (simp_all add: testEnv_fields testScene_def aurora_def)
  then obtain st' where run: "sceneLoop ?E 252 ?ss ?st = (None, st')"
    by (cases "sceneLoop ?E 252 ?ss ?st") auto
  have n: "framesForScene (testScene (7 / 2)) = 84"
    by (rule framesForScene_84) (simp add: testScene_def)
  have m: "framesForScene (testScene 2) = 48"
    by (rule framesForScene_48) (simp add: testScene_def)
  note per = frames_per_scene [where scene = "testScene (7 / 2)" and env = ?E and T = 252
      and before = "[testScene 2]" and after = "[testScene 8]" and st = ?st and st' = st']
  from per [THEN conjunct2, THEN conjunct2, THEN conjunct1, THEN mp, OF run]
  obtain mid mid' where
    a: "sceneLoop ?E 252 [testScene 2] ?st = (None, mid)"
    and b: "sceneLoop ?E 252 ([testScene 2] @ [testScene (7 / 2)]) ?st = (None, mid')"
    and c: "frameIndex mid' = frameIndex mid + framesForScene (testScene (7 / 2))"
    and d: "writeCalls mid' = writeCalls mid
              @ map frameFilename [frameIndex mid..<frameIndex mid + framesForScene (testScene (7 / 2))]"
    by blast
  from sceneLoop_wrote [OF a] m have i: "frameIndex mid = 48"
    by (auto simp: wroteFrames_def startAttempt_def)
  from c i n have c': "frameIndex mid' = 48 + 84" by (simp only:)
  from d i n have d': "writeCalls mid' = writeCalls mid @ map frameFilename [48..<48 + 84]"
    by (simp only:)
  show ?thesis
    by (rule exI [of _ st'], rule exI [of _ mid], rule exI [of _ mid'], intro conjI)
      (fact run a b i c' d' n)+
qed

lemma String_nat_48: "String_nat 48 = ''48''"
  unfolding String_nat.simps [of 48] by (simp add: String_nat.simps [of 4] digitChar_def)

lemma frameFilename_48: "frameFilename 48 = ''frame_00048.png''"
  unfolding frameFilename_def padStart_def String_nat_48 by (simp add: eval_nat_numeral)

text \<open>
  Claim C7.  In every attempt the names passed to \<open>writeFile\<close> are those of the
  consecutive frame indices \<open>0, 1, 2, ...\<close> in that order, across scene boundaries;
  all of them but possibly the last, a rejected one, were accepted and are the
  names the code keeps in \<open>writtenFiles\<close>; an attempt that succeeds has handed over
  as many as the scenes' frame counts add up to.  The frame loop leaves in the
  working storage, besides what was there, exactly the files of the indices it
  went through.  The name of frame \<open>i\<close> is \<open>frame_\<close>, the decimal numeral of \<open>i\<close>
  padded with zeros to five digits (exactly five up to index 99999), and \<open>.png\<close>;
  different indices have different names; the first is \<open>frame_00000.png\<close>.
\<close>

theorem frame_file_names:
  "(synthesizeVideo env ss (startAttempt files) = (r, st') \<longrightarrow>
       writeCalls st' = map frameFilename [0..<length (writeCalls st')]
       \<and> writtenFiles st' = map frameFilename [0..<frameIndex st']
       \<and> frameIndex st' \<le> length (writeCalls st')
       \<and> length (writeCalls st') \<le> frameIndex st' + 1
       \<and> frameIndex st' \<le> sum_list (map framesForScene ss)
       \<and> ((\<exists>bytes. r = Inr bytes) \<longrightarrow>
            writeCalls st' = map frameFilename [0..<sum_list (map framesForScene ss)]
            \<and> writtenFiles st' = writeCalls st'))
   \<and> (sceneLoop env T ss st = (thrown, after) \<longrightarrow>
       dom (storage after)
         = dom (storage st) \<union> frameFilename ` {frameIndex st..<frameIndex after}
       \<and> writtenFiles after
         = writtenFiles st @ map frameFilename [frameIndex st..<frameIndex after]
       \<and> (\<exists>n. writeCalls after
                 = writeCalls st @ map frameFilename [frameIndex st..<frameIndex st + n]
               \<and> frameIndex after \<le> frameIndex st + n
               \<and> frameIndex st + n \<le> frameIndex after + 1))
   \<and> frameFilename i = ''frame_'' @ padStart (String_nat i) 5 (CHR ''0'') @ ''.png''
   \<and> (i < 100000 \<longrightarrow> length (padStart (String_nat i) 5 (CHR ''0'')) = 5)
   \<and> decimalValue (padStart (String_nat i) 5 (CHR ''0'')) = i
   \<and> (frameFilename i = frameFilename j \<longrightarrow> i = j)
   \<and> frameFilename 0 = ''frame_00000.png''
   \<and> frameFilename 1 = ''frame_00001.png''"
proof (intro conjI impI)
  assume run: "synthesizeVideo env ss (startAttempt files) = (r, st')"
  from synthesizeVideo_calls [OF run] obtain n where
    n: "writeCalls st' = map frameFilename [0..<n]" "frameIndex st' \<le> n" "n \<le> frameIndex st' + 1"
    by blast
  then have len: "length (writeCalls st') = n" by simp
  from n(1) show "writeCalls st' = map frameFilename [0..<length (writeCalls st')]"
    unfolding len .
  from n(2) show "frameIndex st' \<le> length (writeCalls st')" unfolding len .
  from n(3) show "length (writeCalls st') \<le> frameIndex st' + 1" unfolding len .
  from synthesizeVideo_run [OF run]
  show "writtenFiles st' = map frameFilename [0..<frameIndex st']"
    and "frameIndex st' \<le> sum_list (map framesForScene ss)"
    by simp_all
next
  assume run: "synthesizeVideo env ss (startAttempt files) = (r, st')"
    and ok: "\<exists>bytes. r = Inr bytes"
  from synthesizeVideo_run [OF run] ok
  have w: "writtenFiles st' = map frameFilename [0..<frameIndex st']"
    and i: "frameIndex st' = sum_list (map framesForScene ss)"
    by simp_all
  from synthesizeVideo_calls [OF run] ok
  have c: "writeCalls st' = map frameFilename [0..<frameIndex st']" by auto
  from c i show "writeCalls st' = map frameFilename [0..<sum_list (map framesForScene ss)]"
    by simp
  from w c show "writtenFiles st' = writeCalls st'" by simp
next
  assume loop: "sceneLoop env T ss st = (thrown, after)"
  from sceneLoop_wrote [OF loop] obtain k where k: "wroteFrames T k st after" by blast
  then have i: "frameIndex after = frameIndex st + k" by (simp add: wroteFrames_def)
  from k show "dom (storage after)
         = dom (storage st) \<union> frameFilename ` {frameIndex st..<frameIndex after}"
    unfolding i by (simp add: wroteFrames_def)
  from k show "writtenFiles after
         = writtenFiles st @ map frameFilename [frameIndex st..<frameIndex after]"
    unfolding i by (simp add: wroteFrames_def)
  from sceneLoop_handed [OF loop] obtain n where "handedOver n st after" by blast
  then show "\<exists>n. writeCalls after
                 = writeCalls st @ map frameFilename [frameIndex st..<frameIndex st + n]
               \<and> frameIndex after \<le> frameIndex st + n
               \<and> frameIndex st + n \<le> frameIndex after + 1"
    unfolding handedOver_def by blast
next
  show "frameFilename i = ''frame_'' @ padStart (String_nat i) 5 (CHR ''0'') @ ''.png''"
    by (simp add: frameFilename_def)
next
  assume "i < 100000"
  then have "length (String_nat i) \<le> 5" by (intro length_String_nat) simp_all
  then show "length (padStart (String_nat i) 5 (CHR ''0'')) = 5" by (rule padStart_length)
next
  show "decimalValue (padStart (String_nat i) 5 (CHR ''0'')) = i"
    by (simp add: decimalValue_padStart decimalValue_String_nat)
next
  assume "frameFilename i = frameFilename j"
  then show "i = j" by (rule frameFilename_inj)
next
  show "frameFilename 0 = ''frame_00000.png''" by (rule frameFilename_0)
  show "frameFilename 1 = ''frame_00001.png''" by (rule frameFilename_1)
qed

theorem frame_file_names_witness:
  "\<exists>st'. synthesizeVideo (testEnv (\<lambda>name. True) (ExecResolves (Uint8Array [7])))
            [testScene 2, testScene (7 / 2)] (startAttempt Map.empty) = (Inr [7], st')
         \<and> writeCalls st' = map frameFilename [0..<132]
         \<and> writtenFiles st' = writeCalls st'
         \<and> writeCalls st' ! 47 = frameFilename 47
         \<and> writeCalls st' ! 48 = ''frame_00048.png''
         \<and> length (padStart (String_nat 48) 5 (CHR ''0'')) = 5"
proof -
  let ?E = "testEnv (\<lambda>name. True) (ExecResolves (Uint8Array [7]))"
  let ?ss = "[testScene 2, testScene (7 / 2)]"
  have "\<exists>st'. synthesizeVideo ?E ?ss (startAttempt Map.empty) = (Inr [7], st')"
    by (rule synthesizeVideo_success) (simp_all add: testEnv_fields testScene_def aurora_def)
  then obtain st' where
    run: "synthesizeVideo ?E ?ss (startAttempt Map.empty) = (Inr [7], st')" ..
  have "framesForScene (testScene 2) = 48" "framesForScene (testScene (7 / 2)) = 84"
    by (rule framesForScene_48 framesForScene_84, simp add: testScene_def)+
  then have n: "sum_list (map framesForScene ?ss) = 132" by simp
  have small: "(48::nat) < 100000" by simp
  note names = frame_file_names [where env = ?E and ss = ?ss and files = Map.empty
      and r = "Inr [7]" and st' = st' and i = 48]
  have ok: "\<exists>bytes. Inr [7] = (Inr bytes :: error + nat list)" by blast
  from names [THEN conjunct1, THEN mp, OF run]
  have "(\<exists>bytes. Inr [7] = (Inr bytes :: error + nat list)) \<longrightarrow>
          writeCalls st' = map frameFilename [0..<sum_list (map framesForScene ?ss)]
          \<and> writtenFiles st' = writeCalls st'"
    by blast
  with ok have a: "writeCalls st' = map frameFilename [0..<sum_list (map framesForScene ?ss)]"
    and b: "writtenFiles st' = writeCalls st'"
    by blast+
  from names small have c: "length (padStart (String_nat 48) 5 (CHR ''0'')) = 5" by blast
  from a n have a': "writeCalls st' = map frameFilename [0..<132]" by simp
  then have d: "writeCalls st' ! 47 = frameFilename 47" and e: "writeCalls st' ! 48 = frameFilename 48"
    by (simp_all del: upt_Suc)
  from e have e': "writeCalls st' ! 48 = ''frame_00048.png''" by (simp only: frameFilename_48)
  from run a' b c d e' show ?thesis by blast
qed

text \<open>
  Claim C8.  With an empty scene list \<open>synthesizeVideo\<close> throws
  "Add at least one scene before rendering." and leaves the state of the attempt
  exactly as it was: the encoder is not loaded, nothing is written, no stage is
  reported; \<open>handleRender\<close> ends in the error state with that message.
\<close>

theorem empty_scene_list_rejected:
  "synthesizeVideo env [] st = (Inl (Error ''Add at least one scene before rendering.''), st)
   \<and> handleRender env [] st = (Failed (Error ''Add at least one scene before rendering.''), st)"
  by (simp add: synthesizeVideo_def handleRender_def)

lemma synthesizeVideo_missing:
  assumes "scene \<in> set ss"
    and "find (\<lambda>entry. gradient_id entry = gradientId scene) (registry env) = None"
  shows "\<exists>e. fst (synthesizeVideo env ss st) = Inl e"
proof -
  have no: "sceneLoop env T ss s \<noteq> (None, s')" for T s s'
    using sceneLoop_missing [OF assms, of T s] by auto
  show ?thesis
    unfolding synthesizeVideo_def Let_def
    by (auto split: prod.splits option.splits simp: no)
qed

text \<open>
  Claim C6.  For a scene whose \<open>gradientId\<close> is not in the gradient table,
  \<open>renderSceneFrame\<close> throws the "Missing gradient" error at any progress and
  leaves the context untouched: no drawing call was issued and no other gradient
  is used.  An export of a list containing such a scene never yields a video: it
  throws and \<open>handleRender\<close> ends in the error state; when the scene is the first of
  the list and the encoder and the surface are available, the error thrown is that
  one and no file has been written.
\<close>

theorem missing_gradient_aborts:
  assumes "find (\<lambda>entry. gradient_id entry = gradientId scene) (registry env) = None"
  shows "renderSceneFrame (registry env) m scene p ctx
           = (Some (missingGradient (gradientId scene)), ctx)
       \<and> (scene \<in> set ss \<longrightarrow>
            (\<exists>e. fst (synthesizeVideo env ss st) = Inl e)
            \<and> (\<exists>e. fst (handleRender env ss st) = Failed e))
       \<and> (getFFmpeg_ok env \<and> getContext_ok env \<longrightarrow>
            fst (synthesizeVideo env (scene # rest) st) = Inl (missingGradient (gradientId scene))
            \<and> storage (snd (synthesizeVideo env (scene # rest) st)) = storage st
            \<and> writtenFiles (snd (synthesizeVideo env (scene # rest) st)) = [])"
proof (intro conjI impI)
  show "renderSceneFrame (registry env) m scene p ctx
           = (Some (missingGradient (gradientId scene)), ctx)"
    by (rule renderSceneFrame_missing [OF assms])
next
  assume mem: "scene \<in> set ss"
  from synthesizeVideo_missing [OF mem assms, of st]
  show "\<exists>e. fst (synthesizeVideo env ss st) = Inl e" .
  then show "\<exists>e. fst (handleRender env ss st) = Failed e"
    by (auto simp: handleRender_def split: prod.splits sum.splits)
next
  assume ok: "getFFmpeg_ok env \<and> getContext_ok env"
  then show "fst (synthesizeVideo env (scene # rest) st) = Inl (missingGradient (gradientId scene))"
    by (simp add: synthesizeVideo_def loadEncoder_def Let_def
          frameLoop_missing [OF assms framesForScene_pos])
  from ok show "storage (snd (synthesizeVideo env (scene # rest) st)) = storage st"
    by (simp add: synthesizeVideo_def loadEncoder_def Let_def onStage_def
          frameLoop_missing [OF assms framesForScene_pos])
  from ok show "writtenFiles (snd (synthesizeVideo env (scene # rest) st)) = []"
    by (simp add: synthesizeVideo_def loadEncoder_def Let_def onStage_def
          frameLoop_missing [OF assms framesForScene_pos])
qed

theorem missing_gradient_aborts_witness:
  "renderSceneFrame [aurora] (\<lambda>fnt t. 0) ((testScene 2)\<lparr>gradientId := ''nope''\<rparr>) (1 / 2) freshContext
     = (Some (missingGradient ''nope''), freshContext)
   \<and> fst (synthesizeVideo (testEnv (\<lambda>name. True) (ExecResolves (Uint8Array [7])))
            [(testScene 2)\<lparr>gradientId := ''nope''\<rparr>] (startAttempt Map.empty))
       = Inl (missingGradient ''nope'')
   \<and> writtenFiles (snd (synthesizeVideo (testEnv (\<lambda>name. True) (ExecResolves (Uint8Array [7])))
            [(testScene 2)\<lparr>gradientId := ''nope''\<rparr>] (startAttempt Map.empty))) = []"
proof -
  let ?E = "testEnv (\<lambda>name. True) (ExecResolves (Uint8Array [7]))"
  let ?s = "(testScene 2)\<lparr>gradientId := ''nope''\<rparr>"
  have missing: "find (\<lambda>entry. gradient_id entry = gradientId ?s) (registry ?E) = None"
    by (simp add: testEnv_def testScene_def aurora_def)
  have ok: "getFFmpeg_ok ?E \<and> getContext_ok ?E" by (simp add: testEnv_fields)
  have reg: "registry ?E = [aurora]" and gid: "gradientId ?s = ''nope''"
    by (simp_all add: testEnv_fields)
  note aborts = missing_gradient_aborts [OF missing, where m = "\<lambda>fnt t. 0" and p = "1 / 2"
      and ctx = freshContext and rest = "[]" and st = "startAttempt Map.empty"]
  from aborts ok show ?thesis unfolding reg gid by blast
qed

subsection \<open>Progress of the frames stage\<close>

lemma frames_progress_nondecreasing:
  assumes run: "synthesizeVideo env ss (startAttempt files) = (r, st')"
  shows "sorted (framesProgress st')"
proof -
  from synthesizeVideo_run [OF run]
  have p: "framesProgress st' = map (\<lambda>j. real j / real (totalFrames ss)) [1..<frameIndex st' + 1]"
    by simp
  show ?thesis
    unfolding p sorted_iff_nth_mono
    by (auto simp: divide_right_mono simp del: upt_Suc)
qed

lemma frames_progress_last:
  assumes run: "synthesizeVideo env ss (startAttempt files) = (Inr bytes, st')"
  shows "last (framesProgress st')
           = real (sum_list (map framesForScene ss)) / real (totalFrames ss)"
proof -
  from synthesizeVideo_run [OF run]
  have p: "framesProgress st' = map (\<lambda>j. real j / real (totalFrames ss)) [1..<frameIndex st' + 1]"
    and n: "frameIndex st' = sum_list (map framesForScene ss)"
    by simp_all
  have "ss \<noteq> []"
    using run by (auto simp: synthesizeVideo_def)
  then obtain s rest where "ss = s # rest" by (cases ss) auto
  then have "0 < sum_list (map framesForScene ss)"
    using framesForScene_pos [of s] by simp
  with n have "[1..<frameIndex st' + 1] \<noteq> []" by simp
  then have "last (framesProgress st') = real (last [1..<frameIndex st' + 1]) / real (totalFrames ss)"
    unfolding p by (simp add: last_map del: upt_Suc)
  also have "last [1..<frameIndex st' + 1] = frameIndex st'"
    using \<open>0 < sum_list (map framesForScene ss)\<close> n by simp
  finally show ?thesis using n by simp
qed

text \<open>
  With durations on the half-second grid of the editor, of one second or more and
  adding up to less than \<open>2^47\<close> seconds, every sum and product is a double as it
  stands, the two frame counts agree, and the last report of a successful attempt
  is exactly 1.
\<close>

lemma Math_round_of_nat: "Math_round (real n) = int n"
  unfolding Math_round_def by (rule floor_unique) simp_all

lemma framesForScene_half_steps:
  assumes "2 \<le> m" and "duration scene = real m / 2" and "real m / 2 < 2 ^ 47"
  shows "real (framesForScene scene) = duration scene * 24"
proof -
  have "real m < 2 ^ 48" using assms(3) by simp
  then have "real (12 * m) < real (2 ^ 52)" by simp
  then have small: "12 * m < 2 ^ 52" by (simp only: of_nat_less_iff)
  have "double_times (duration scene) 24 = toDouble (real (12 * m))"
    unfolding double_times_def assms(2) by simp
  also have "\<dots> = real (12 * m)"
    using assms(1) small by (intro toDouble_nat) simp_all
  finally have "Math_round (double_times (duration scene) 24) = int (12 * m)"
    by (simp only: Math_round_of_nat)
  with assms(1,2) show ?thesis by (simp add: framesForScene_def FPS_def)
qed

lemma doubleSum_half_steps:
  assumes "\<forall>scene\<in>set ss. \<exists>m::nat. 2 \<le> m \<and> duration scene = real m / 2"
    and "real j / 2 + sum_list (map duration ss) < 2 ^ 47"
  shows "foldl (\<lambda>total scene. double_plus total (duration scene)) (real j / 2) ss
           = real j / 2 + sum_list (map duration ss)"
  using assms
proof (induction ss arbitrary: j)
  case Nil
  then show ?case by simp
next
  case (Cons s rest)
  from Cons.prems(1) obtain m where m: "2 \<le> m" "duration s = real m / 2" by auto
  have nonneg: "0 \<le> sum_list (map duration rest)"
    using Cons.prems(1) by (intro sum_list_nonneg) auto
  with Cons.prems(2) m(2) have "real (j + m) / 2 < 2 ^ 47" by (simp add: add_divide_distrib)
  then have "real (j + m) < real (2 ^ 53)" by simp
  then have small: "j + m < 2 ^ 53" by (simp only: of_nat_less_iff)
  have "double_plus (real j / 2) (duration s) = toDouble (real (j + m) / 2)"
    unfolding double_plus_def m(2) by (simp add: add_divide_distrib)
  also have "\<dots> = real (j + m) / 2"
    using m(1) small by (intro toDouble_half) simp_all
  finally have step: "double_plus (real j / 2) (duration s) = real (j + m) / 2" .
  from Cons.prems have rest: "\<forall>scene\<in>set rest. \<exists>m::nat. 2 \<le> m \<and> duration scene = real m / 2"
    and bound: "real (j + m) / 2 + sum_list (map duration rest) < 2 ^ 47"
    by (simp_all add: m(2) add_divide_distrib)
  have "foldl (\<lambda>total scene. double_plus total (duration scene)) (real j / 2) (s # rest)
          = foldl (\<lambda>total scene. double_plus total (duration scene)) (real (j + m) / 2) rest"
    by (simp only: foldl_Cons step)
  also have "\<dots> = real (j + m) / 2 + sum_list (map duration rest)"
    by (rule Cons.IH [OF rest bound])
  also have "\<dots> = real j / 2 + sum_list (map duration (s # rest))"
    by (simp add: m(2) add_divide_distrib)
  finally show ?case .
qed

lemma counts_agree_on_half_steps:
  assumes "onHalfSteps ss" and "ss \<noteq> []"
  shows "sum_list (map framesForScene ss) = totalFrames ss"
proof -
  from assms(1) have grid: "\<forall>scene\<in>set ss. \<exists>m::nat. 2 \<le> m \<and> duration scene = real m / 2"
    and bound: "sum_list (map duration ss) < 2 ^ 47"
    by (simp_all add: onHalfSteps_def)
  have nonneg: "\<forall>scene\<in>set ss. 0 \<le> duration scene" using grid by auto
  have each: "\<forall>scene\<in>set ss. real (framesForScene scene) = duration scene * 24"
  proof
    fix scene assume mem: "scene \<in> set ss"
    with grid obtain m where m: "2 \<le> m" "duration scene = real m / 2" by blast
    have "duration scene \<le> sum_list (map duration ss)"
      using mem nonneg by (intro member_le_sum_list) auto
    with bound m(2) have "real m / 2 < 2 ^ 47" by simp
    from framesForScene_half_steps [OF m this] show "real (framesForScene scene) = duration scene * 24" .
  qed
  have "real (sum_list (map framesForScene ss)) = sum_list (map duration ss) * 24"
    using each by (induction ss) (simp_all add: algebra_simps)
  then have tot: "sum_list (map duration ss) * 24 = real (sum_list (map framesForScene ss))"
    by simp
  from assms(2) obtain s rest where "ss = s # rest" by (cases ss) auto
  then have pos: "0 < sum_list (map framesForScene ss)"
    using framesForScene_pos [of s] by simp
  have "real (sum_list (map framesForScene ss)) < real (2 ^ 52)"
    using bound unfolding tot [symmetric] by simp
  then have small: "sum_list (map framesForScene ss) < 2 ^ 52" by (simp only: of_nat_less_iff)
  from doubleSum_half_steps [OF grid, of 0] bound
  have "totalDurationDouble ss = sum_list (map duration ss)"
    by (simp add: totalDurationDouble_def)
  then have "double_times (totalDurationDouble ss) 24 = toDouble (real (sum_list (map framesForScene ss)))"
    unfolding double_times_def by (simp only: tot)
  also have "\<dots> = real (sum_list (map framesForScene ss))"
    using pos small by (intro toDouble_nat) simp_all
  finally have "Math_round (double_times (totalDurationDouble ss) 24)
                  = int (sum_list (map framesForScene ss))"
    by (simp only: Math_round_of_nat)
  with pos show ?thesis by (simp add: totalFrames_def FPS_def)
qed

lemma frames_progress_reaches_one_on_half_steps:
  assumes "onHalfSteps ss"
    and run: "synthesizeVideo env ss (startAttempt files) = (Inr bytes, st')"
  shows "last (framesProgress st') = 1"
proof -
  have ne: "ss \<noteq> []" using run by (auto simp: synthesizeVideo_def)
  from counts_agree_on_half_steps [OF assms(1) ne] frames_progress_last [OF run]
  have "last (framesProgress st') = real (totalFrames ss) / real (totalFrames ss)" by simp
  moreover have "0 < totalFrames ss" by (simp add: totalFrames_def)
  ultimately show ?thesis by simp
qed

text \<open>
  Claim C1.  The reports of the frames stage are non-decreasing in every attempt
  (\<open>frames_progress_nondecreasing\<close>), but the last one is the number of frames
  written divided by \<open>totalFrames\<close>, and the two differ when the durations are off
  the half-second grid: \<open>totalFrames\<close> rounds the summed duration, the loop sums
  the rounded durations.  With two scenes of duration 2.02, both within
  \<open>[2, 8]\<close>, the export succeeds, \<open>totalFrames\<close> is 97, 96 frames are written and
  the last report is \<open>96/97\<close>, not 1.
\<close>

theorem frames_progress_ends_below_one:
  "\<exists>bytes st'.
      synthesizeVideo (testEnv (\<lambda>name. True) (ExecResolves (Uint8Array [7])))
        [testScene (101 / 50), testScene (101 / 50)] (startAttempt Map.empty) = (Inr bytes, st')
      \<and> list_all durationInBounds [testScene (101 / 50), testScene (101 / 50)]
      \<and> totalFrames [testScene (101 / 50), testScene (101 / 50)] = 97
      \<and> length (framesProgress st') = 96
      \<and> last (framesProgress st') = 96 / 97
      \<and> last (framesProgress st') \<noteq> 1"
proof -
  let ?E = "testEnv (\<lambda>name. True) (ExecResolves (Uint8Array [7]))"
  let ?ss = "[testScene (101 / 50), testScene (101 / 50)]"
  have "\<exists>st'. synthesizeVideo ?E ?ss (startAttempt Map.empty) = (Inr [7], st')"
    by (rule synthesizeVideo_success) (simp_all add: testEnv_fields testScene_def aurora_def)
  then obtain st' where run: "synthesizeVideo ?E ?ss (startAttempt Map.empty) = (Inr [7], st')" ..
  have "framesForScene (testScene (101 / 50)) = 48"
    by (rule framesForScene_202) (simp add: testScene_def)
  then have n: "sum_list (map framesForScene ?ss) = 96" by simp
  have "totalDurationDouble ?ss = 4548635623644201 / 1125899906842624"
    by (simp add: testScene_def totalDurationDouble_def double_sum1_202 double_sum2_202)
  then have t: "totalFrames ?ss = 97"
    by (simp only: totalFrames_def FPS_def double_tot2_202) (simp add: Math_round_def)
  have b: "list_all durationInBounds ?ss"
    by (simp add: testScene_def durationInBounds_def MIN_DURATION_def MAX_DURATION_def)
  from synthesizeVideo_run [OF run]
  have "framesProgress st' = map (\<lambda>j. real j / real (totalFrames ?ss)) [1..<frameIndex st' + 1]"
    and "frameIndex st' = sum_list (map framesForScene ?ss)"
    by simp_all
  then have "length (framesProgress st') = sum_list (map framesForScene ?ss)"
    by (simp del: upt_Suc)
  with n have len: "length (framesProgress st') = 96" by simp
  from frames_progress_last [OF run] n t have l: "last (framesProgress st') = 96 / 97" by simp
  then have "last (framesProgress st') \<noteq> 1" by simp
  with run b t len l show ?thesis by blast
qed

text \<open>With two scenes of duration 2.03 the last report is above 1.\<close>

lemma frames_progress_ends_above_one:
  "\<exists>bytes st'.
      synthesizeVideo (testEnv (\<lambda>name. True) (ExecResolves (Uint8Array [7])))
        [testScene (203 / 100), testScene (203 / 100)] (startAttempt Map.empty) = (Inr bytes, st')
      \<and> last (framesProgress st') = 98 / 97"
proof -
  let ?E = "testEnv (\<lambda>name. True) (ExecResolves (Uint8Array [7]))"
  let ?ss = "[testScene (203 / 100), testScene (203 / 100)]"
  have "\<exists>st'. synthesizeVideo ?E ?ss (startAttempt Map.empty) = (Inr [7], st')"
    by (rule synthesizeVideo_success) (simp_all add: testEnv_fields testScene_def aurora_def)
  then obtain st' where run: "synthesizeVideo ?E ?ss (startAttempt Map.empty) = (Inr [7], st')" ..
  have "framesForScene (testScene (203 / 100)) = 49"
    by (rule framesForScene_203) (simp add: testScene_def)
  then have n: "sum_list (map framesForScene ?ss) = 98" by simp
  have "totalDurationDouble ?ss = 4571153621781053 / 1125899906842624"
    by (simp add: testScene_def totalDurationDouble_def double_sum1_203 double_sum2_203)
  then have t: "totalFrames ?ss = 97"
    by (simp only: totalFrames_def FPS_def double_tot2_203) (simp add: Math_round_def)
  from frames_progress_last [OF run] n t have "last (framesProgress st') = 98 / 97" by simp
  with run show ?thesis by blast
qed

text \<open>
  The same happens at inputs that are doubles as they stand: at the double nearest
  to 2.02, and at \<open>129/64\<close>, two scenes give 96 frames against a total of 97.
\<close>

lemma last_report_below_one_at_doubles:
  assumes "d = 4548635623644201 / 2251799813685248 \<or> d = 129 / 64"
  shows "\<exists>bytes st'.
      synthesizeVideo (testEnv (\<lambda>name. True) (ExecResolves (Uint8Array [7])))
        [testScene d, testScene d] (startAttempt Map.empty) = (Inr bytes, st')
      \<and> list_all durationInBounds [testScene d, testScene d]
      \<and> totalFrames [testScene d, testScene d] = 97
      \<and> last (framesProgress st') = 96 / 97"
proof -
  let ?E = "testEnv (\<lambda>name. True) (ExecResolves (Uint8Array [7]))"
  let ?ss = "[testScene d, testScene d]"
  have "\<exists>st'. synthesizeVideo ?E ?ss (startAttempt Map.empty) = (Inr [7], st')"
    by (rule synthesizeVideo_success) (simp_all add: testEnv_fields testScene_def aurora_def)
  then obtain st' where run: "synthesizeVideo ?E ?ss (startAttempt Map.empty) = (Inr [7], st')" ..
  have f: "framesForScene (testScene d) = 48"
    using assms
  proof
    assume "d = 4548635623644201 / 2251799813685248"
    then have "duration (testScene d) = 4548635623644201 / 2251799813685248"
      by (simp add: testScene_def)
    then show ?thesis
      by (simp only: framesForScene_at double_values) (simp add: Math_round_def)
  next
    assume "d = 129 / 64"
    then have "duration (testScene d) = 129 / 64"
      by (simp add: testScene_def)
    then show ?thesis
      by (simp only: framesForScene_at double_values) (simp add: Math_round_def)
  qed
  then have n: "sum_list (map framesForScene ?ss) = 96" by simp
  have t: "totalFrames ?ss = 97"
    using assms
  proof
    assume d: "d = 4548635623644201 / 2251799813685248"
    have "totalDurationDouble ?ss = 4548635623644201 / 1125899906842624"
      unfolding d by (simp add: testScene_def totalDurationDouble_def double_sum1_d202 double_sum2_d202)
    then show ?thesis
      by (simp only: totalFrames_def FPS_def double_tot2_202) (simp add: Math_round_def)
  next
    assume d: "d = 129 / 64"
    have "totalDurationDouble ?ss = 129 / 32"
      unfolding d by (simp add: testScene_def totalDurationDouble_def double_sum1_129_64 double_sum2_129_64)
    then show ?thesis
      by (simp only: totalFrames_def FPS_def double_tot2_129_64) (simp add: Math_round_def)
  qed
  have b: "list_all durationInBounds ?ss"
    using assms
    by (auto simp: testScene_def durationInBounds_def MIN_DURATION_def MAX_DURATION_def)
  from frames_progress_last [OF run] n t have "last (framesProgress st') = 96 / 97" by simp
  with run b t show ?thesis by blast
qed

subsection \<open>Cleanup\<close>

lemma frameBody_write_rejected:
  assumes "find (\<lambda>entry. gradient_id entry = gradientId scene) (registry env) = Some g"
    and "atob_ok env" and "\<not> writeFile_ok env (frameFilename (frameIndex st))"
  shows "fst (frameBody env T scene n frame st) = Some (Rejected ''writeFile'')"
  unfolding frameBody_def Let_def canvasToUint8_def writeFile_def
  by (simp add: renderSceneFrame_resolved [OF assms(1)] assms(2,3))

text \<open>
  When the frame loop runs to its end, cleanup does what the claim says, however
  \<open>exec\<close> and \<open>readFile\<close> end: \<open>deleteFile\<close> is called for every frame written and
  then for \<open>output.mp4\<close>, and with a \<open>deleteFile\<close> that does not refuse none of these
  names is left in the working storage.
\<close>

lemma cleanup_after_complete_frame_loop:
  assumes "ss \<noteq> []" and "getFFmpeg_ok env" and "getContext_ok env" and "atob_ok env"
    and "\<forall>scene\<in>set ss. find (\<lambda>entry. gradient_id entry = gradientId scene) (registry env) \<noteq> None"
    and "\<forall>name. writeFile_ok env name"
    and run: "synthesizeVideo env ss (startAttempt files) = (r, st')"
  shows "writtenFiles st' = map frameFilename [0..<sum_list (map framesForScene ss)]"
    and "deleteCalls st' = writtenFiles st' @ [''output.mp4'']"
    and "(\<forall>name. deleteFile_ok env name) \<Longrightarrow>
           dom (storage st') \<inter> (set (writtenFiles st') \<union> {''output.mp4''}) = {}"
    and "(\<exists>partial. exec_outcome env = (\<lambda>stored. ExecRejects partial)) \<Longrightarrow>
           r = Inl (Rejected ''exec'') \<and> handleRender env ss (startAttempt files) = (Failed (Rejected ''exec''), st')"
proof -
  obtain st1 where load: "loadEncoder env (startAttempt files) = (None, st1)"
    using assms(2) by (simp add: loadEncoder_def Let_def)
  from loadEncoder_fields [OF load] have d1: "deleteCalls st1 = []"
    by (simp add: startAttempt_def)
  let ?st2 = "st1\<lparr>canvasContext := freshContext, writtenFiles := [], frameIndex := 0\<rparr>"
  from sceneLoop_ok [OF assms(5,4,6), of "totalFrames ss" ?st2]
  obtain st3 where loop: "sceneLoop env (totalFrames ss) ss ?st2 = (None, st3)"
    by (cases "sceneLoop env (totalFrames ss) ss ?st2") auto
  from sceneLoop_wrote [OF loop]
  have w: "wroteFrames (totalFrames ss) (sum_list (map framesForScene ss)) ?st2 st3" by auto
  then have st3: "writtenFiles st3 = map frameFilename [0..<sum_list (map framesForScene ss)]"
    "deleteCalls st3 = []"
    using d1 by (simp_all add: wroteFrames_def)
  obtain thrown data st5 where mux: "tryMux env (onStage Muxing (1 / 10) st3) = (thrown, data, st5)"
    by (cases "tryMux env (onStage Muxing (1 / 10) st3)") auto
  from tryMux_fields [OF mux]
  have st5: "writtenFiles st5 = writtenFiles st3" "deleteCalls st5 = deleteCalls st3"
    by (simp_all add: onStage_fields)
  from synthesizeVideo_after_loop [OF assms(1) load assms(3) loop mux] run
  have st': "st' = cleanupFfmpeg env (writtenFiles st5) st5"
    and r: "r = (case thrown of Some e \<Rightarrow> Inl e
                 | None \<Rightarrow> (case data of
                              None \<Rightarrow> Inl (Error ''Failed to read rendered video output.'')
                            | Some bytes \<Rightarrow> Inr bytes))"
    by simp_all
  from cleanupFfmpeg_fields [of env "writtenFiles st5" st5]
  have st6: "writtenFiles st' = writtenFiles st5"
    "deleteCalls st' = deleteCalls st5 @ writtenFiles st5 @ [''output.mp4'']"
    unfolding st' by simp_all
  show a: "writtenFiles st' = map frameFilename [0..<sum_list (map framesForScene ss)]"
    by (simp only: st6 st5 st3)
  show "deleteCalls st' = writtenFiles st' @ [''output.mp4'']"
    by (simp add: st6 st5 st3)
  show "dom (storage st') \<inter> (set (writtenFiles st') \<union> {''output.mp4''}) = {}"
    if "\<forall>name. deleteFile_ok env name"
    using cleanupFfmpeg_dom_ok [OF that, of "writtenFiles st5" st5]
    unfolding st6(1) unfolding st' by auto
  show "r = Inl (Rejected ''exec'') \<and> handleRender env ss (startAttempt files) = (Failed (Rejected ''exec''), st')"
    if "\<exists>partial. exec_outcome env = (\<lambda>stored. ExecRejects partial)"
  proof -
    from that obtain partial where "exec_outcome env = (\<lambda>stored. ExecRejects partial)" ..
    then have "fst (tryMux env (onStage Muxing (1 / 10) st3)) = Some (Rejected ''exec'')"
      by (cases partial) (simp_all add: tryMux_def exec_def)
    with mux have "thrown = Some (Rejected ''exec'')" by simp
    with r have "r = Inl (Rejected ''exec'')" by simp
    with run show ?thesis by (simp add: handleRender_def)
  qed
qed

text \<open>
  Claim C5.  Cleanup does not run when \<open>synthesizeVideo\<close> throws inside the frame
  loop: the loop stands before the \<open>try\<close> whose \<open>finally\<close> cleans up.  With one scene
  of duration 2 and an encoder that accepts the first frame and rejects the write
  of the second, the attempt throws the rejection, \<open>frame_00000.png\<close> was written and
  is still in the working storage, and \<open>deleteFile\<close> was never called.
\<close>

theorem frames_left_when_write_rejected:
  "\<exists>st'.
      synthesizeVideo (testEnv (\<lambda>name. name = frameFilename 0) (ExecResolves (Uint8Array [7])))
        [testScene 2] (startAttempt Map.empty) = (Inl (Rejected ''writeFile''), st')
      \<and> writtenFiles st' = [''frame_00000.png'']
      \<and> ''frame_00000.png'' \<in> dom (storage st')
      \<and> deleteCalls st' = []"
proof -
  let ?E = "testEnv (\<lambda>name. name = frameFilename 0) (ExecResolves (Uint8Array [7]))"
  let ?s = "testScene 2"
  let ?T = "totalFrames [?s]"
  obtain st1 where load: "loadEncoder ?E (startAttempt Map.empty) = (None, st1)"
    by (simp add: loadEncoder_def Let_def testEnv_fields)
  from loadEncoder_fields [OF load]
  have st1: "deleteCalls st1 = []" "storage st1 = Map.empty"
    by (simp_all add: startAttempt_def)
  let ?st2 = "st1\<lparr>canvasContext := freshContext, writtenFiles := [], frameIndex := 0\<rparr>"
  have n: "framesForScene ?s = 48"
    by (rule framesForScene_48) (simp add: testScene_def)
  obtain r0 sta where body0: "frameBody ?E ?T ?s 48 0 ?st2 = (r0, sta)"
    by (cases "frameBody ?E ?T ?s 48 0 ?st2")
  have "fst (frameBody ?E ?T ?s 48 0 ?st2) = None"
    by (rule frameBody_ok [OF testScene_resolves]) (simp_all add: testEnv_fields)
  with body0 have r0: "r0 = None" by simp
  from frameBody_wrote [OF body0] r0 have wa: "wroteFrames ?T 1 ?st2 sta" by simp
  then have ia: "frameIndex sta = 1" by (simp add: wroteFrames_def)
  obtain r1 stb where body1: "frameBody ?E ?T ?s 48 (Suc 0) sta = (r1, stb)"
    by (cases "frameBody ?E ?T ?s 48 (Suc 0) sta")
  have "frameFilename 1 \<noteq> frameFilename 0"
    using frameFilename_inj [of 1 0] by auto
  then have no: "\<not> writeFile_ok ?E (frameFilename (frameIndex sta))"
    by (simp add: testEnv_fields ia)
  have "fst (frameBody ?E ?T ?s 48 (Suc 0) sta) = Some (Rejected ''writeFile'')"
    by (rule frameBody_write_rejected [OF testScene_resolves _ no]) (simp add: testEnv_fields)
  with body1 have r1: "r1 = Some (Rejected ''writeFile'')" by simp
  from frameBody_wrote [OF body1] r1 have wb: "wroteFrames ?T 0 sta stb" by simp
  from wroteFrames_trans [OF wa wb] have w: "wroteFrames ?T 1 ?st2 stb" by simp
  have inner: "frameLoop ?E ?T ?s 48 0 ?st2 = (Some (Rejected ''writeFile''), stb)"
    by (simp add: frameLoop.simps [of ?E ?T ?s 48 0 ?st2] body0 r0
          frameLoop.simps [of ?E ?T ?s 48 "Suc 0" sta] body1 r1)
  have run: "synthesizeVideo ?E [?s] (startAttempt Map.empty) = (Inl (Rejected ''writeFile''), stb)"
    by (simp add: synthesizeVideo_def load testEnv_fields Let_def n inner)
  from w st1 have "writtenFiles stb = [frameFilename 0]" "deleteCalls stb = []"
    "dom (storage stb) = {frameFilename 0}"
    by (simp_all add: wroteFrames_def)
  with run show ?thesis unfolding frameFilename_0 by auto
qed

end
